theory Spec2Isabelle
  imports Main "HOL-Library.Sublist" "HOL-Library.Multiset" "HOL-Library.Product_Lexorder"
begin

section \<open>Strings\<close>

text \<open>
  JavaScript strings are modelled as \<^typ>\<open>string\<close> over the ASCII range.
  An optional property (\<^verbatim>\<open>title?: string\<close>) is an \<^typ>\<open>string option\<close>;
  \<^verbatim>\<open>x || ''\<close> reads \<open>None\<close> as the empty string.
\<close>

definition orEmpty :: "string option \<Rightarrow> string" where
  "orEmpty s = (case s of None \<Rightarrow> [] | Some t \<Rightarrow> t)"

text \<open>\<^verbatim>\<open>String.prototype.toLowerCase\<close>, on ASCII letters.\<close>

definition toLowerChar :: "char \<Rightarrow> char" where
  "toLowerChar c =
     (let n = (of_char c :: nat) in if 65 \<le> n \<and> n \<le> 90 then char_of (n + 32) else c)"

definition toLowerCase :: "string \<Rightarrow> string" where
  "toLowerCase s = map toLowerChar s"

text \<open>\<^verbatim>\<open>String.prototype.startsWith\<close> and \<^verbatim>\<open>String.prototype.includes\<close> (\<open>includesStr\<close>, as \<open>includes\<close> is reserved).\<close>

fun startsWith :: "string \<Rightarrow> string \<Rightarrow> bool" where
  "startsWith s [] = True"
| "startsWith [] (k # ks) = False"
| "startsWith (c # cs) (k # ks) = (c = k \<and> startsWith cs ks)"

fun includesStr :: "string \<Rightarrow> string \<Rightarrow> bool" where
  "includesStr [] k = (k = [])"
| "includesStr (c # cs) k = (startsWith (c # cs) k \<or> includesStr cs k)"

text \<open>
  A term occurs in a text as a case-insensitive substring when the two agree on some
  contiguous part of the text after lower-casing both.
\<close>

definition ci_includes :: "string \<Rightarrow> string \<Rightarrow> bool" where
  "ci_includes s k = includesStr (toLowerCase s) (toLowerCase k)"

text \<open>\<^verbatim>\<open>Array.prototype.some\<close>.\<close>

definition some :: "'a list \<Rightarrow> ('a \<Rightarrow> bool) \<Rightarrow> bool" where
  "some xs p = list_ex p xs"

section \<open>Numbers\<close>

text \<open>
  A JavaScript number that may be NaN is an \<^typ>\<open>int option\<close> with \<open>None\<close> for NaN;
  the numbers met here (counts, time values in milliseconds) are integers.
\<close>

type_synonym number = "int option"

definition minus_num :: "number \<Rightarrow> number \<Rightarrow> number" where
  "minus_num a b = (case (a, b) of (Some x, Some y) \<Rightarrow> Some (x - y) | _ \<Rightarrow> None)"

text \<open>
  \<^verbatim>\<open>parseInt(s, 10)\<close>: leading white space is skipped, a sign is read, then the longest
  run of decimal digits; without a digit the result is NaN.
\<close>

definition isWhiteSpace :: "char \<Rightarrow> bool" where
  "isWhiteSpace c = ((of_char c :: int) \<in> {9, 10, 11, 12, 13, 32})"

definition isDigit :: "char \<Rightarrow> bool" where
  "isDigit c = (48 \<le> (of_char c :: int) \<and> (of_char c :: int) \<le> 57)"

definition digitsValue :: "string \<Rightarrow> int" where
  "digitsValue ds = foldl (\<lambda>acc c. 10 * acc + (of_char c - 48)) 0 ds"

definition parseInt :: "string \<Rightarrow> number" where
  "parseInt s =
     (let t = dropWhile isWhiteSpace s;
          neg = (case t of [] \<Rightarrow> False | c # r \<Rightarrow> c = CHR ''-'');
          u = (case t of [] \<Rightarrow> [] | c # r \<Rightarrow> if c = CHR ''-'' \<or> c = CHR ''+'' then r else t);
          ds = takeWhile isDigit u
      in if ds = [] then None
         else Some (if neg then - digitsValue ds else digitsValue ds))"

text \<open>
  A string in a numeric position that the code reads with \<^verbatim>\<open>Number(s)\<close> is represented
  by the outcome: \<open>NonNumeric\<close> when \<^verbatim>\<open>Number(s)\<close> is NaN (as for \<^verbatim>\<open>'abc'\<close> or
  \<^verbatim>\<open>'1,234'\<close>), \<open>Numeric n\<close> when it is the integer \<open>n\<close>.  Absent, \<^verbatim>\<open>null\<close> and empty
  strings are \<open>None\<close> of the option around it.
\<close>

datatype numstr = NonNumeric | Numeric int

definition Number :: "numstr \<Rightarrow> number" where
  "Number s = (case s of NonNumeric \<Rightarrow> None | Numeric n \<Rightarrow> Some n)"

text \<open>
  A string in a date position is represented by what \<^verbatim>\<open>new Date(s).getTime()\<close> makes
  of it: \<open>Unparseable\<close> (the time value is NaN) or \<open>Parses t\<close> with the time value
  \<open>t\<close> in milliseconds since the epoch.  Absent and empty strings (both falsy) are
  \<open>None\<close> of the option around it.
\<close>

datatype datestr = Unparseable | Parses int

text \<open>\<^verbatim>\<open>new Date(s || 0).getTime()\<close> for a date string \<open>s\<close>.\<close>

definition getTimeOr0 :: "datestr option \<Rightarrow> number" where
  "getTimeOr0 s = (case s of None \<Rightarrow> Some 0 | Some Unparseable \<Rightarrow> None | Some (Parses t) \<Rightarrow> Some t)"

section \<open>Upstream data\<close>

text \<open>
  \<^verbatim>\<open>YTSearchItem\<close>: \<open>si_videoId\<close> is \<^verbatim>\<open>id?.videoId\<close>, the other fields are those of
  \<^verbatim>\<open>snippet\<close>, each \<open>None\<close> when the snippet or the property is missing.
\<close>

record YTSearchItem =
  si_videoId :: "string option"
  si_channelId :: "string option"
  si_title :: "string option"
  si_channelTitle :: "string option"
  si_publishedAt :: "datestr option"
  si_thumbnailMedium :: "string option"
  si_thumbnailDefault :: "string option"
  si_description :: "string option"

text \<open>
  \<^verbatim>\<open>YTVideoDetails\<close>, its optional chains flattened: \<open>d_ytRating\<close> is
  \<^verbatim>\<open>contentDetails?.contentRating?.ytRating\<close>, \<open>d_tags\<close> is \<^verbatim>\<open>snippet?.tags\<close>, and so on.
\<close>

record YTVideoDetails =
  d_id :: string
  d_duration :: "string option"
  d_ytRating :: "string option"
  d_viewCount :: "numstr option"
  d_madeForKids :: "bool option"
  d_tags :: "string list option"
  d_categoryId :: "string option"

record YTChannel =
  c_id :: string
  c_subscriberCount :: "string option"

text \<open>\<^verbatim>\<open>detailsMap.get(vid)\<close>, with the item's \<^verbatim>\<open>id?.videoId\<close> as the key.\<close>

definition detailsOf :: "(string \<rightharpoonup> YTVideoDetails) \<Rightarrow> YTSearchItem \<Rightarrow> YTVideoDetails option" where
  "detailsOf detailsMap i = (case si_videoId i of None \<Rightarrow> None | Some vid \<Rightarrow> detailsMap vid)"

section \<open>Safety filter\<close>

definition CONTENT_BLOCKLIST :: "string list" where
  "CONTENT_BLOCKLIST =
    [''sanwariya'', ''pajama'', ''naked'', ''sex'',
     ''sexual'', ''nsfw'', ''xxx'', ''porn'', ''erotic'', ''18+'', ''x-rated'', ''nude'', ''nudity'',
     ''fetish'', ''bdsm'',
     ''violent'', ''violence'', ''murder'', ''kill'', ''killing'', ''blood'', ''gore'', ''weapon'',
     ''gun'', ''shoot'', ''shooting'', ''stab'', ''stabbing'', ''war'', ''fight'', ''assault'',
     ''suicide'',
     ''explicit'', ''swear'', ''profanity'', ''fuck'', ''shit'', ''bitch'', ''asshole'', ''cunt'',
     ''dick'', ''bastard'',
     ''age restricted'']"

text \<open>The server's copy of the list (\<^verbatim>\<open>BLOCKLIST\<close> in \<^verbatim>\<open>server/index.js\<close>).\<close>

definition BLOCKLIST :: "string list" where
  "BLOCKLIST =
    [''sanwariya'', ''pajama'', ''naked'', ''sex'',
     ''sexual'', ''nsfw'', ''xxx'', ''porn'', ''erotic'', ''18+'', ''x-rated'', ''nude'', ''nudity'',
     ''fetish'', ''bdsm'',
     ''violent'', ''violence'', ''murder'', ''kill'', ''killing'', ''blood'', ''gore'', ''weapon'',
     ''gun'', ''shoot'', ''shooting'', ''stab'', ''stabbing'', ''war'', ''fight'', ''assault'',
     ''suicide'',
     ''explicit'', ''swear'', ''profanity'', ''fuck'', ''shit'', ''bitch'', ''asshole'', ''cunt'',
     ''dick'', ''bastard'',
     ''age restricted'']"

definition isTitleBlocked :: "string option \<Rightarrow> bool" where
  "isTitleBlocked title =
     (let t = toLowerCase (orEmpty title) in some CONTENT_BLOCKLIST (\<lambda>w. includesStr t w))"

text \<open>
  \<^verbatim>\<open>isKidFriendly(sn, det)\<close> of \<^verbatim>\<open>fetchYouTubeDirect\<close>; \<open>maxAge\<close> is the value of
  \<^verbatim>\<open>getMaxAllowedAge()\<close>.  The body's \<^verbatim>\<open>try\<close> guards only string operations on
  values that are strings here, so its \<^verbatim>\<open>catch\<close> branch has no counterpart.
\<close>

definition tagsOf :: "YTVideoDetails option \<Rightarrow> string list" where
  "tagsOf det = (case det of None \<Rightarrow> [] | Some d \<Rightarrow> (case d_tags d of None \<Rightarrow> [] | Some ts \<Rightarrow> ts))"

definition ratingOf :: "YTVideoDetails option \<Rightarrow> string option" where
  "ratingOf det = (case det of None \<Rightarrow> None | Some d \<Rightarrow> d_ytRating d)"

definition isKidFriendly :: "int \<Rightarrow> YTSearchItem \<Rightarrow> YTVideoDetails option \<Rightarrow> bool" where
  "isKidFriendly maxAge sn det =
     (let title = toLowerCase (orEmpty (si_title sn));
          desc = toLowerCase (orEmpty (si_description sn));
          tags = map toLowerCase (tagsOf det);
          rating = ratingOf det
      in if maxAge < 18 \<and> rating = Some ''ytAgeRestricted'' then False
         else if some CONTENT_BLOCKLIST (\<lambda>k. includesStr title k \<or> includesStr desc k) then False
         else if length tags > 0 \<and> some CONTENT_BLOCKLIST (\<lambda>k. some tags (\<lambda>t. includesStr t k))
           then False
         else True)"

definition filteredItems :: "int \<Rightarrow> (string \<rightharpoonup> YTVideoDetails) \<Rightarrow> YTSearchItem list \<Rightarrow> YTSearchItem list" where
  "filteredItems maxAge detailsMap items =
     filter (\<lambda>i. isKidFriendly maxAge i (detailsOf detailsMap i)) items"

text \<open>
  The server's \<^verbatim>\<open>isBlocked(sn, det)\<close>.  \<open>MAX_ALLOWED_AGE\<close> is a \<^verbatim>\<open>parseInt\<close> result:
  \<open>None\<close> is NaN, for which \<^verbatim>\<open>MAX_ALLOWED_AGE < 18\<close> is false.
\<close>

definition isBlocked :: "int option \<Rightarrow> YTSearchItem \<Rightarrow> YTVideoDetails option \<Rightarrow> bool" where
  "isBlocked MAX_ALLOWED_AGE sn det =
     (let title = toLowerCase (orEmpty (si_title sn));
          desc = toLowerCase (orEmpty (si_description sn));
          tags = map toLowerCase (tagsOf det);
          rating = ratingOf det
      in if (case MAX_ALLOWED_AGE of None \<Rightarrow> False | Some a \<Rightarrow> a < 18)
            \<and> rating = Some ''ytAgeRestricted'' then True
         else if some BLOCKLIST (\<lambda>k. includesStr title k \<or> includesStr desc k) then True
         else if length tags \<noteq> 0 \<and> some BLOCKLIST (\<lambda>k. some tags (\<lambda>t. includesStr t k)) then True
         else False)"

definition filtered :: "int option \<Rightarrow> (string \<rightharpoonup> YTVideoDetails) \<Rightarrow> YTSearchItem list \<Rightarrow> YTSearchItem list" where
  "filtered MAX_ALLOWED_AGE detailsMap items =
     filter (\<lambda>i. \<not> isBlocked MAX_ALLOWED_AGE i (detailsOf detailsMap i)) items"

section \<open>Sorting\<close>

text \<open>
  \<^verbatim>\<open>Array.prototype.sort(comparefn)\<close>.  The language fixes the result for a consistent
  comparator: the elements in an order that the comparator accepts, equal elements in
  their input order (the sort is stable), and a comparator result of NaN is read as
  \<open>+0\<close>.  The model is the stable insertion sort, which yields that result.
\<close>

definition compareValue :: "('a \<Rightarrow> 'a \<Rightarrow> number) \<Rightarrow> 'a \<Rightarrow> 'a \<Rightarrow> int" where
  "compareValue comparefn x y = (case comparefn x y of None \<Rightarrow> 0 | Some v \<Rightarrow> v)"

fun insertBy :: "('a \<Rightarrow> 'a \<Rightarrow> number) \<Rightarrow> 'a \<Rightarrow> 'a list \<Rightarrow> 'a list" where
  "insertBy comparefn x [] = [x]"
| "insertBy comparefn x (y # ys) =
     (if compareValue comparefn x y \<le> 0 then x # y # ys else y # insertBy comparefn x ys)"

definition sortBy :: "('a \<Rightarrow> 'a \<Rightarrow> number) \<Rightarrow> 'a list \<Rightarrow> 'a list" where
  "sortBy comparefn xs = foldr (insertBy comparefn) xs []"

text \<open>
  Arrays are objects: \<^verbatim>\<open>slice()\<close> allocates a copy and \<^verbatim>\<open>sort\<close> works in place.  Where
  that matters the arrays live in a store, a list of arrays addressed by position.
\<close>

type_synonym 'a store = "'a list list"

definition slice :: "'a store \<Rightarrow> nat \<Rightarrow> 'a store \<times> nat" where
  "slice h r = (h @ [h ! r], length h)"

definition sortInPlace :: "('a \<Rightarrow> 'a \<Rightarrow> number) \<Rightarrow> 'a store \<Rightarrow> nat \<Rightarrow> 'a store" where
  "sortInPlace comparefn h r = h[r := sortBy comparefn (h ! r)]"

section \<open>Ranking policy\<close>

definition isMadeForKids :: "YTVideoDetails option \<Rightarrow> bool" where
  "isMadeForKids det =
     (case det of None \<Rightarrow> False | Some d \<Rightarrow> (case d_madeForKids d of None \<Rightarrow> False | Some b \<Rightarrow> b))"

definition channelOf :: "(string \<rightharpoonup> YTChannel) \<Rightarrow> YTSearchItem \<Rightarrow> YTChannel option" where
  "channelOf channelMap i = (case si_channelId i of None \<Rightarrow> None | Some c \<Rightarrow> channelMap c)"

text \<open>\<^verbatim>\<open>parseInt(ch?.statistics?.subscriberCount || '0', 10) || 0\<close>.\<close>

definition subscribers :: "YTChannel option \<Rightarrow> int" where
  "subscribers ch =
     (let s = orEmpty (case ch of None \<Rightarrow> None | Some c \<Rightarrow> c_subscriberCount c)
      in case parseInt (if s = [] then ''0'' else s) of None \<Rightarrow> 0 | Some n \<Rightarrow> n)"

definition isVerified :: "(string \<rightharpoonup> YTChannel) \<Rightarrow> YTSearchItem \<Rightarrow> bool" where
  "isVerified channelMap i = (subscribers (channelOf channelMap i) \<ge> 100000)"

text \<open>
  The comparator of the two \<^verbatim>\<open>sort\<close> calls (\<^verbatim>\<open>fetchYouTubeDirect\<close> and the server's
  \<^verbatim>\<open>/api/search\<close> have the same body); \<open>byDate\<close> is the test
  \<^verbatim>\<open>(order ?? 'date') === 'date'\<close>.
\<close>

definition rankCompare ::
  "bool \<Rightarrow> (string \<rightharpoonup> YTVideoDetails) \<Rightarrow> (string \<rightharpoonup> YTChannel) \<Rightarrow> YTSearchItem \<Rightarrow> YTSearchItem \<Rightarrow> number" where
  "rankCompare byDate detailsMap channelMap a b =
     (let mka = (if isMadeForKids (detailsOf detailsMap a) then 1 else 0 :: int);
          mkb = (if isMadeForKids (detailsOf detailsMap b) then 1 else 0 :: int)
      in if mkb \<noteq> mka then Some (mkb - mka)
         else
           let verifiedA = (if isVerified channelMap a then 1 else 0 :: int);
               verifiedB = (if isVerified channelMap b then 1 else 0 :: int)
           in if verifiedB \<noteq> verifiedA then Some (verifiedB - verifiedA)
              else if byDate
                then minus_num (getTimeOr0 (si_publishedAt b)) (getTimeOr0 (si_publishedAt a))
                else Some 0)"

text \<open>The browser: \<^verbatim>\<open>filteredItems.slice().sort(...)\<close>, with \<^verbatim>\<open>opts?.order ?? 'date'\<close>.\<close>

definition orderIsDate :: "string option \<Rightarrow> bool" where
  "orderIsDate order = ((case order of None \<Rightarrow> ''date'' | Some s \<Rightarrow> s) = ''date'')"

definition prioritizedItems ::
  "string option \<Rightarrow> (string \<rightharpoonup> YTVideoDetails) \<Rightarrow> (string \<rightharpoonup> YTChannel) \<Rightarrow> YTSearchItem store \<Rightarrow> nat
     \<Rightarrow> YTSearchItem store \<times> nat" where
  "prioritizedItems order detailsMap channelMap h filteredRef =
     (let (h1, r) = slice h filteredRef
      in (sortInPlace (rankCompare (orderIsDate order) detailsMap channelMap) h1 r, r))"

text \<open>The server: \<^verbatim>\<open>filtered.slice().sort(...)\<close>, with \<^verbatim>\<open>order || 'date'\<close>.\<close>

definition prioritized ::
  "string \<Rightarrow> (string \<rightharpoonup> YTVideoDetails) \<Rightarrow> (string \<rightharpoonup> YTChannel) \<Rightarrow> YTSearchItem store \<Rightarrow> nat
     \<Rightarrow> YTSearchItem store \<times> nat" where
  "prioritized order detailsMap channelMap h filteredRef =
     (let (h1, r) = slice h filteredRef
      in (sortInPlace (rankCompare ((if order = [] then ''date'' else order) = ''date'')
            detailsMap channelMap) h1 r, r))"

section \<open>Video items and the category classifier\<close>

text \<open>
  \<^verbatim>\<open>VideoItem\<close>.  \<open>videoId\<close> is a string as the type declares; a missing id (hidden by
  the cast \<^verbatim>\<open>as string\<close>) is the empty string, which is falsy as well.
\<close>

record VideoItem =
  videoId :: string
  title :: "string option"
  channelTitle :: "string option"
  thumbnailUrl :: "string option"
  publishedAt :: "datestr option"
  duration :: "string option"
  viewCount :: "numstr option"
  description :: "string option"
  tags :: "string list"
  videoCategoryId :: "string option"
  madeForKids :: bool

text \<open>
  \<open>topViews\<close> of \<^verbatim>\<open>computeCategoriesPool\<close>, the bucket \<^verbatim>\<open>'Top Most Views'\<close>:
  \<^verbatim>\<open>pool.slice().sort((a, b) => Number(b.viewCount || '0') - Number(a.viewCount || '0'))\<close>.
\<close>

definition viewCountNumber :: "VideoItem \<Rightarrow> number" where
  "viewCountNumber v = (case viewCount v of None \<Rightarrow> Number (Numeric 0) | Some s \<Rightarrow> Number s)"

definition topViews :: "VideoItem list \<Rightarrow> VideoItem list" where
  "topViews pool = sortBy (\<lambda>a b. minus_num (viewCountNumber b) (viewCountNumber a)) pool"

text \<open>The view count as the specification reads it: missing or non-numeric is zero.\<close>

definition viewsOrZero :: "VideoItem \<Rightarrow> int" where
  "viewsOrZero v = (case viewCount v of Some (Numeric n) \<Rightarrow> n | _ \<Rightarrow> 0)"

section \<open>Dates\<close>

text \<open>
  Errors are values.  \<open>RangeError\<close> is what \<^verbatim>\<open>toISOString\<close> throws on an invalid date,
  \<open>Error msg\<close> is \<^verbatim>\<open>new Error(msg)\<close>, \<open>SearchFailed status message\<close> and
  \<open>ProxyFailed status\<close> are the errors whose message is built from a response, and
  \<open>NetworkFailure\<close> is a rejected \<^verbatim>\<open>fetch\<close>.
\<close>

datatype error = RangeError | Error string | SearchFailed int string | ProxyFailed int | NetworkFailure

text \<open>
  A \<^verbatim>\<open>Date\<close> object is its time value, a \<^typ>\<open>number\<close>: \<open>None\<close> is the invalid date.
  The calendar functions are those of the language definition (ECMA-262, Date objects);
  every time value is an integer number of milliseconds.
\<close>

definition msPerDay :: int where
  "msPerDay = 86400000"

definition maxTime :: int where
  "maxTime = 8640000000000000"

definition TimeClip :: "int \<Rightarrow> number" where
  "TimeClip t = (if \<bar>t\<bar> \<le> maxTime then Some t else None)"

definition Day :: "int \<Rightarrow> int" where
  "Day t = t div msPerDay"

definition TimeWithinDay :: "int \<Rightarrow> int" where
  "TimeWithinDay t = t mod msPerDay"

definition DaysInYear :: "int \<Rightarrow> int" where
  "DaysInYear y =
     (if y mod 4 \<noteq> 0 then 365 else if y mod 100 \<noteq> 0 then 366
      else if y mod 400 \<noteq> 0 then 365 else 366)"

definition DayFromYear :: "int \<Rightarrow> int" where
  "DayFromYear y =
     365 * (y - 1970) + (y - 1969) div 4 - (y - 1901) div 100 + (y - 1601) div 400"

text \<open>
  \<open>YearFromTime t\<close> is the largest year \<open>y\<close> with \<open>DayFromYear y \<le> Day t\<close>: the search
  starts at a year that is not too late and moves up.  The first argument of \<open>yearUp\<close>
  says whether the year after \<open>y\<close> starts on day \<open>d\<close> or before it.
\<close>

function yearUp :: "bool \<Rightarrow> int \<Rightarrow> int \<Rightarrow> int" where
  "yearUp False y d = y"
| "yearUp True y d = yearUp (DayFromYear (y + 2) \<le> d) (y + 1) d"
  by pat_completeness auto
termination
proof (relation "measure (\<lambda>(b, y, d). if b then 1 + nat (d + 1 - DayFromYear (y + 1)) else 0)")
  show "wf (measure (\<lambda>(b, y, d). if b then 1 + nat (d + 1 - DayFromYear (y + 1)) else 0))"
    by simp
next
  fix y d :: int
  have "DayFromYear (y + 1) < DayFromYear (y + 2)"
  proof -
    have a: "(y + 1 - 1969) div 4 \<le> (y + 2 - 1969) div 4"
      by (intro zdiv_mono1) auto
    have b: "(y + 2 - 1901) div 100 \<le> (y + 1 - 1901 + 100) div 100"
      by (intro zdiv_mono1) auto
    have b': "(y + 1 - 1901 + 100) div 100 = (y + 1 - 1901) div 100 + 1"
      by simp
    have c: "(y + 1 - 1601) div 400 \<le> (y + 2 - 1601) div 400"
      by (intro zdiv_mono1) auto
    have b'': "(y + 2 - 1901) div 100 \<le> (y + 1 - 1901) div 100 + 1"
      using b b' by (rule ord_le_eq_trans)
    have key: "\<And>p p' q q' r r' :: int. p \<le> p' \<Longrightarrow> q' \<le> q + 1 \<Longrightarrow> r \<le> r' \<Longrightarrow>
        365 * (y + 1 - 1970) + p - q + r < 365 * (y + 2 - 1970) + p' - q' + r'"
      by simp
    show ?thesis
      unfolding DayFromYear_def by (rule key[OF a b'' c])
  qed
  then show "((DayFromYear (y + 2) \<le> d, y + 1, d), (True, y, d))
       \<in> measure (\<lambda>(b, y, d). if b then 1 + nat (d + 1 - DayFromYear (y + 1)) else 0)"
    by (simp add: ac_simps)
qed

definition YearFromTime :: "int \<Rightarrow> int" where
  "YearFromTime t =
     (let d = Day t;
          y0 = 1970 + (if 0 \<le> d then d div 366 else d div 365)
      in yearUp (DayFromYear (y0 + 1) \<le> d) y0 d)"

definition InLeapYear :: "int \<Rightarrow> int" where
  "InLeapYear t = (if DaysInYear (YearFromTime t) = 366 then 1 else 0)"

definition DayWithinYear :: "int \<Rightarrow> int" where
  "DayWithinYear t = Day t - DayFromYear (YearFromTime t)"

text \<open>The day within the year on which month \<open>mn\<close> (0 to 11) starts; \<open>L\<close> is 1 in a leap year.\<close>

definition firstDayOfMonth :: "int \<Rightarrow> int \<Rightarrow> int" where
  "firstDayOfMonth mn L =
     (if mn = 0 then 0 else if mn = 1 then 31
      else L + (if mn = 2 then 59 else if mn = 3 then 90 else if mn = 4 then 120
                else if mn = 5 then 151 else if mn = 6 then 181 else if mn = 7 then 212
                else if mn = 8 then 243 else if mn = 9 then 273 else if mn = 10 then 304
                else 334))"

definition MonthFromTime :: "int \<Rightarrow> int" where
  "MonthFromTime t =
     (let d = DayWithinYear t; L = InLeapYear t
      in if d < 31 then 0 else if d < 59 + L then 1 else if d < 90 + L then 2
         else if d < 120 + L then 3 else if d < 151 + L then 4 else if d < 181 + L then 5
         else if d < 212 + L then 6 else if d < 243 + L then 7 else if d < 273 + L then 8
         else if d < 304 + L then 9 else if d < 334 + L then 10 else 11)"

definition DateFromTime :: "int \<Rightarrow> int" where
  "DateFromTime t = DayWithinYear t - firstDayOfMonth (MonthFromTime t) (InLeapYear t) + 1"

definition MakeDay :: "int \<Rightarrow> int \<Rightarrow> int \<Rightarrow> int" where
  "MakeDay year month date =
     (let ym = year + month div 12; mn = month mod 12
      in DayFromYear ym + firstDayOfMonth mn (if DaysInYear ym = 366 then 1 else 0) + date - 1)"

definition MakeDate :: "int \<Rightarrow> int \<Rightarrow> int" where
  "MakeDate day time = day * msPerDay + time"

text \<open>
  \<open>tza\<close> is the offset of the local time zone from UTC in milliseconds, taken as
  constant (no daylight saving).
\<close>

definition LocalTime :: "int \<Rightarrow> int \<Rightarrow> int" where
  "LocalTime tza t = t + tza"

definition UTC :: "int \<Rightarrow> int \<Rightarrow> int" where
  "UTC tza t = t - tza"

text \<open>\<^verbatim>\<open>new Date(s)\<close> for a date string, and the methods of \<^verbatim>\<open>Date\<close> that the code calls.\<close>

definition newDate :: "datestr \<Rightarrow> number" where
  "newDate s = (case s of Unparseable \<Rightarrow> None | Parses t \<Rightarrow> TimeClip t)"

definition getMonth :: "int \<Rightarrow> number \<Rightarrow> number" where
  "getMonth tza d = (case d of None \<Rightarrow> None | Some t \<Rightarrow> Some (MonthFromTime (LocalTime tza t)))"

definition getDate :: "int \<Rightarrow> number \<Rightarrow> number" where
  "getDate tza d = (case d of None \<Rightarrow> None | Some t \<Rightarrow> Some (DateFromTime (LocalTime tza t)))"

definition setMonth :: "int \<Rightarrow> number \<Rightarrow> number \<Rightarrow> number" where
  "setMonth tza d month =
     (case (d, month) of
        (Some t, Some m) \<Rightarrow>
          (let lt = LocalTime tza t
           in TimeClip (UTC tza (MakeDate (MakeDay (YearFromTime lt) m (DateFromTime lt))
                                          (TimeWithinDay lt))))
      | _ \<Rightarrow> None)"

definition setDate :: "int \<Rightarrow> number \<Rightarrow> number \<Rightarrow> number" where
  "setDate tza d date =
     (case (d, date) of
        (Some t, Some dt) \<Rightarrow>
          (let lt = LocalTime tza t
           in TimeClip (UTC tza (MakeDate (MakeDay (YearFromTime lt) (MonthFromTime lt) dt)
                                          (TimeWithinDay lt))))
      | _ \<Rightarrow> None)"

definition toISOString :: "number \<Rightarrow> error + datestr" where
  "toISOString d = (case d of None \<Rightarrow> Inl RangeError | Some t \<Rightarrow> Inr (Parses t))"

section \<open>Date windows\<close>

record DateWindow =
  w_publishedAfter :: datestr
  w_publishedBefore :: datestr

text \<open>\<^verbatim>\<open>toIsoUTC(input)\<close>; \<open>None\<close> is \<^verbatim>\<open>undefined\<close>.\<close>

definition toIsoUTC :: "datestr option \<Rightarrow> datestr option" where
  "toIsoUTC input =
     (case input of None \<Rightarrow> None
      | Some s \<Rightarrow> (case newDate s of None \<Rightarrow> None | Some t \<Rightarrow> Some (Parses t)))"

text \<open>\<^verbatim>\<open>getDefaultDateWindow()\<close>; \<open>now\<close> is the clock reading of \<^verbatim>\<open>new Date()\<close>.\<close>

definition getDefaultDateWindow :: "int \<Rightarrow> int \<Rightarrow> error + DateWindow" where
  "getDefaultDateWindow tza now =
     (let nowD = TimeClip now;
          afterD = setMonth tza nowD (minus_num (getMonth tza nowD) (Some 1))
      in case toISOString afterD of Inl e \<Rightarrow> Inl e
         | Inr a \<Rightarrow> (case toISOString nowD of Inl e \<Rightarrow> Inl e
            | Inr b \<Rightarrow> Inr \<lparr>w_publishedAfter = a, w_publishedBefore = b\<rparr>))"

text \<open>\<^verbatim>\<open>getNextWindowByMonths(current, monthsBack)\<close>.\<close>

definition getNextWindowByMonths :: "int \<Rightarrow> DateWindow \<Rightarrow> int \<Rightarrow> error + DateWindow" where
  "getNextWindowByMonths tza current monthsBack =
     (let beforeD = newDate (w_publishedAfter current);
          afterD = setMonth tza beforeD (minus_num (getMonth tza beforeD) (Some monthsBack))
      in case toISOString afterD of Inl e \<Rightarrow> Inl e
         | Inr a \<Rightarrow> (case toISOString beforeD of Inl e \<Rightarrow> Inl e
            | Inr b \<Rightarrow> Inr \<lparr>w_publishedAfter = a, w_publishedBefore = b\<rparr>))"

text \<open>
  Repeated application: the windows that \<open>n\<close> successive calls return, each call on the
  window before it.
\<close>

fun nextWindows :: "int \<Rightarrow> int \<Rightarrow> nat \<Rightarrow> DateWindow \<Rightarrow> error + DateWindow list" where
  "nextWindows tza monthsBack 0 w = Inr []"
| "nextWindows tza monthsBack (Suc n) w =
     (case getNextWindowByMonths tza w monthsBack of Inl e \<Rightarrow> Inl e
      | Inr w' \<Rightarrow> (case nextWindows tza monthsBack n w' of Inl e \<Rightarrow> Inl e
         | Inr ws \<Rightarrow> Inr (w' # ws)))"

text \<open>
  The date normalisation of the server's \<^verbatim>\<open>GET /api/search\<close>.  \<open>parseIso\<close> gives
  \<^verbatim>\<open>null\<close> (\<open>None\<close>) or a valid \<^verbatim>\<open>Date\<close>; after the repair \<^verbatim>\<open>dAfter\<close> may hold an
  invalid \<^verbatim>\<open>Date\<close>, which is an object and so truthy: \<open>Some None\<close>.  In the result
  \<open>None\<close> is the empty string.
\<close>

definition parseIso :: "datestr option \<Rightarrow> number option" where
  "parseIso s =
     (case s of None \<Rightarrow> None
      | Some x \<Rightarrow> (case newDate x of None \<Rightarrow> None | Some t \<Rightarrow> Some (Some t)))"

definition isoOrEmpty :: "number option \<Rightarrow> error + datestr option" where
  "isoOrEmpty d =
     (case d of None \<Rightarrow> Inr None
      | Some x \<Rightarrow> (case toISOString x of Inl e \<Rightarrow> Inl e | Inr s \<Rightarrow> Inr (Some s)))"

definition searchDateNormalization ::
  "int \<Rightarrow> datestr option \<Rightarrow> datestr option \<Rightarrow> error + (datestr option \<times> datestr option)" where
  "searchDateNormalization nowT publishedAfter publishedBefore =
     (let dAfter = parseIso publishedAfter;
          dBefore = parseIso publishedBefore;
          now = TimeClip nowT;
          dBefore = (case (dBefore, now) of
                       (Some (Some b), Some n) \<Rightarrow> if b > n then Some now else dBefore
                     | _ \<Rightarrow> dBefore);
          dAfter = (case (dAfter, dBefore) of
                      (Some (Some a), Some (Some b)) \<Rightarrow>
                         if a \<ge> b then Some (TimeClip (b - 1000)) else dAfter
                    | _ \<Rightarrow> dAfter)
      in case isoOrEmpty dAfter of Inl e \<Rightarrow> Inl e
         | Inr a \<Rightarrow> (case isoOrEmpty dBefore of Inl e \<Rightarrow> Inl e | Inr b \<Rightarrow> Inr (a, b)))"

section \<open>Search client: options, keys and responses\<close>

text \<open>\<^verbatim>\<open>SearchOptions\<close>; an absent \<^verbatim>\<open>opts\<close> is the record with every field \<open>None\<close>.\<close>

record SearchOptions =
  o_order :: "string option"
  o_maxResults :: "int option"
  o_publishedAfter :: "datestr option"
  o_publishedBefore :: "datestr option"
  o_kidFriendlyOnly :: "bool option"
  o_videoCategoryId :: "string option"
  o_videoDuration :: "string option"
  o_videoSyndicated :: "bool option"

text \<open>Comparisons of numbers: with NaN on either side they are false.\<close>

definition less_num :: "number \<Rightarrow> number \<Rightarrow> bool" where
  "less_num a b = (case (a, b) of (Some x, Some y) \<Rightarrow> x < y | _ \<Rightarrow> False)"

definition ge_num :: "number \<Rightarrow> number \<Rightarrow> bool" where
  "ge_num a b = (case (a, b) of (Some x, Some y) \<Rightarrow> x \<ge> y | _ \<Rightarrow> False)"

text \<open>
  The window that \<^verbatim>\<open>normalizeSearchOptions\<close> (and, again, \<^verbatim>\<open>fetchYouTubeDirect\<close>)
  settles on: \<^verbatim>\<open>toIsoUTC(o.publishedAfter) || def.publishedAfter\<close> and the same for
  \<^verbatim>\<open>publishedBefore\<close>.
\<close>

definition windowOrDefault :: "DateWindow \<Rightarrow> SearchOptions \<Rightarrow> datestr \<times> datestr" where
  "windowOrDefault def opts =
     (case toIsoUTC (o_publishedAfter opts) of None \<Rightarrow> w_publishedAfter def | Some s \<Rightarrow> s,
      case toIsoUTC (o_publishedBefore opts) of None \<Rightarrow> w_publishedBefore def | Some s \<Rightarrow> s)"

definition normalizeSearchOptions :: "int \<Rightarrow> int \<Rightarrow> SearchOptions \<Rightarrow> error + SearchOptions" where
  "normalizeSearchOptions tza now opts =
     (case getDefaultDateWindow tza now of
        Inl e \<Rightarrow> Inl e
      | Inr def \<Rightarrow>
          (let (afterIso, beforeIso) = windowOrDefault def opts;
               afterDate = newDate afterIso;
               beforeDate = newDate beforeIso
           in if \<not> less_num afterDate beforeDate
                then Inl (Error ''publishedAfter must be before publishedBefore'')
              else Inr (opts\<lparr>o_publishedAfter := Some afterIso, o_publishedBefore := Some beforeIso\<rparr>)))"

text \<open>\<^verbatim>\<open>(q || '').trim().replace(/\s+/g, ' ')\<close>.\<close>

definition trim :: "string \<Rightarrow> string" where
  "trim s = rev (dropWhile isWhiteSpace (rev (dropWhile isWhiteSpace s)))"

fun collapseSpaces :: "bool \<Rightarrow> string \<Rightarrow> string" where
  "collapseSpaces inRun [] = []"
| "collapseSpaces inRun (c # cs) =
     (if isWhiteSpace c
        then (if inRun then collapseSpaces True cs else CHR '' '' # collapseSpaces True cs)
      else c # collapseSpaces False cs)"

definition sanitizeQuery :: "string \<Rightarrow> string" where
  "sanitizeQuery q = collapseSpaces False (trim q)"

text \<open>
  \<^verbatim>\<open>makeSearchKey\<close>.  \<^verbatim>\<open>stableStringify\<close> writes the four parts with sorted keys, so two
  keys are the same string exactly when the parts agree; the key is the tuple of the
  parts.  The last part is the mode: \<open>True\<close> for \<^verbatim>\<open>'yt'\<close>, \<open>False\<close> for \<^verbatim>\<open>'proxy'\<close>.
\<close>

type_synonym cachekey = "string \<times> string \<times> SearchOptions \<times> bool"

definition makeSearchKey :: "string \<Rightarrow> string option \<Rightarrow> SearchOptions \<Rightarrow> bool \<Rightarrow> cachekey" where
  "makeSearchKey q pageToken opts mode = (q, orEmpty pageToken, opts, mode)"

record SearchResponse =
  r_q :: string
  r_items :: "VideoItem list"
  r_nextPageToken :: "string option"
  r_cached :: "bool option"

text \<open>\<^verbatim>\<open>x || null\<close> on an optional string.\<close>

definition orNull :: "string option \<Rightarrow> string option" where
  "orNull s = (case s of None \<Rightarrow> None | Some t \<Rightarrow> if t = [] then None else Some t)"

section \<open>Search client: the environment, the network and the session state\<close>

record Env =
  env_tza :: int
  env_youtubeKey :: string
  env_maxAllowedAge :: "string option"
  env_sessionStorage :: bool

text \<open>
  \<open>env_youtubeKey\<close> is what \<^verbatim>\<open>getYouTubeKey()\<close> returns, \<open>env_maxAllowedAge\<close> the
  variable \<^verbatim>\<open>REACT_APP_MAX_ALLOWED_AGE\<close>, \<open>env_sessionStorage\<close> whether
  \<^verbatim>\<open>sessionStorage\<close> can be used (where it cannot, its calls throw and are ignored).
\<close>

definition getMaxAllowedAge :: "Env \<Rightarrow> int" where
  "getMaxAllowedAge env =
     (case parseInt (orEmpty (env_maxAllowedAge env)) of
        None \<Rightarrow> 14 | Some v \<Rightarrow> if v > 0 then v else 14)"

text \<open>
  What one HTTP exchange comes to: the \<^verbatim>\<open>fetch\<close> is rejected, the response is not
  \<^verbatim>\<open>ok\<close> (status, the error's reason, its message), or it is \<^verbatim>\<open>ok\<close> with a body.
\<close>

datatype 'a http = NetworkError | HttpError int "string option" string | HttpOk 'a

text \<open>What the network answers to the requests of one upstream operation.\<close>

record Upstream =
  up_search :: "(YTSearchItem list \<times> string option) http"
  up_videos :: "YTVideoDetails list http"
  up_channels :: "YTChannel list http"
  up_proxy :: "SearchResponse http"

datatype request =
    SearchRequest string string SearchOptions
  | VideosRequest "string list"
  | ChannelsRequest "string list"
  | ProxyRequest string string SearchOptions

text \<open>
  A pending \<^verbatim>\<open>Promise<SearchResponse>\<close> of \<^verbatim>\<open>inFlightSearch\<close>: its identity, and
  whether the operation behind it has already failed before its first request.
\<close>

record Promise =
  p_id :: nat
  p_failed :: "error option"

text \<open>
  The module's state: \<^verbatim>\<open>searchCache\<close>, \<^verbatim>\<open>sessionStorage\<close> (entries \<^verbatim>\<open>{at, data}\<close> under
  \<^verbatim>\<open>yt_cache:<key>\<close>), \<^verbatim>\<open>inFlightSearch\<close>, the \<^verbatim>\<open>_seenMap\<close> of \<^verbatim>\<open>fetchYouTubeDirect\<close>;
  and, for the claims about them, the requests sent so far and the number of promises
  created.
\<close>

record ClientState =
  searchCache :: "cachekey \<rightharpoonup> SearchResponse"
  sessionStorage :: "cachekey \<rightharpoonup> int \<times> SearchResponse"
  inFlightSearch :: "cachekey \<rightharpoonup> Promise"
  seenMap :: "string \<rightharpoonup> string set"
  requests :: "request list"
  promises :: nat

section \<open>Search client: fetchYouTubeDirect and fetchViaProxy\<close>

text \<open>The \<^verbatim>\<open>VideoItem\<close> that \<^verbatim>\<open>fetchYouTubeDirect\<close> builds from a search item.\<close>

definition toVideoItem :: "(string \<rightharpoonup> YTVideoDetails) \<Rightarrow> YTSearchItem \<Rightarrow> VideoItem" where
  "toVideoItem detailsMap i =
     (let d = detailsOf detailsMap i
      in \<lparr>videoId = orEmpty (si_videoId i),
          title = si_title i,
          channelTitle = si_channelTitle i,
          thumbnailUrl = (case orNull (si_thumbnailMedium i) of
                            None \<Rightarrow> si_thumbnailDefault i | Some u \<Rightarrow> Some u),
          publishedAt = si_publishedAt i,
          duration = orNull (case d of None \<Rightarrow> None | Some x \<Rightarrow> d_duration x),
          viewCount = (case d of None \<Rightarrow> None | Some x \<Rightarrow> d_viewCount x),
          description = si_description i,
          tags = tagsOf d,
          videoCategoryId = orNull (case d of None \<Rightarrow> None | Some x \<Rightarrow> d_categoryId x),
          madeForKids = isMadeForKids d\<rparr>)"

text \<open>
  The last filter of \<^verbatim>\<open>fetchYouTubeDirect\<close>: an item passes when its id is not in
  \<^verbatim>\<open>seen\<close>, and its id is added to \<^verbatim>\<open>seen\<close> as it passes.
\<close>

fun uniqueUnseen :: "string set \<Rightarrow> VideoItem list \<Rightarrow> VideoItem list \<times> string set" where
  "uniqueUnseen seen [] = ([], seen)"
| "uniqueUnseen seen (v # vs) =
     (if videoId v = [] then uniqueUnseen seen vs
      else if videoId v \<in> seen then uniqueUnseen seen vs
      else (let (r, s) = uniqueUnseen (insert (videoId v) seen) vs in (v # r, s)))"

text \<open>\<^verbatim>\<open>new Map(items.map(d => [d.id, d]))\<close>: a later entry replaces an earlier one.\<close>

definition mapOfDetails :: "YTVideoDetails list \<Rightarrow> (string \<rightharpoonup> YTVideoDetails)" where
  "mapOfDetails ds = map_of (rev (map (\<lambda>d. (d_id d, d)) ds))"

definition mapOfChannels :: "YTChannel list \<Rightarrow> (string \<rightharpoonup> YTChannel)" where
  "mapOfChannels cs = map_of (rev (map (\<lambda>c. (c_id c, c)) cs))"

text \<open>\<^verbatim>\<open>Array.from(new Set(xs))\<close>: the first occurrence of each element, in order.\<close>

definition distinctInOrder :: "'a list \<Rightarrow> 'a list" where
  "distinctInOrder xs = rev (remdups (rev xs))"

text \<open>The error thrown for a search response that is not \<^verbatim>\<open>ok\<close>.\<close>

definition searchError :: "int \<Rightarrow> string option \<Rightarrow> string \<Rightarrow> error" where
  "searchError status reason message =
     (if status = 403 \<or> reason = Some ''quotaExceeded'' \<or> includesStr (toLowerCase message) ''quota''
        then Error ''YouTube API quota reached or access forbidden. Please try again later.''
      else if status = 400 \<or> reason = Some ''badRequest''
        then Error ''Invalid YouTube API request. Please adjust filters or try again.''
      else SearchFailed status message)"

text \<open>
  \<^verbatim>\<open>fetchYouTubeDirect\<close> up to its first \<^verbatim>\<open>await\<close>: the error, if any, that it throws
  before it sends the search request.
\<close>

definition youtubeDirectCheck :: "Env \<Rightarrow> int \<Rightarrow> SearchOptions \<Rightarrow> error option" where
  "youtubeDirectCheck env now opts =
     (if env_youtubeKey env = []
        then Some (Error ''YouTube API key is not configured. Please set REACT_APP_YOUTUBE_API_KEY in your .env.'')
      else case getDefaultDateWindow (env_tza env) now of
             Inl e \<Rightarrow> Some e
           | Inr def \<Rightarrow>
               (let (afterIso, beforeIso) = windowOrDefault def opts
                in if ge_num (newDate afterIso) (newDate beforeIso)
                     then Some (Error ''publishedAfter must be before publishedBefore'')
                   else None))"

text \<open>
  The rest of \<^verbatim>\<open>fetchYouTubeDirect\<close>, from the answer to the search request on.  The
  requests for video details and channels are sent when there are ids to ask for; a
  response that is not \<^verbatim>\<open>ok\<close> leaves the map empty, a rejected \<^verbatim>\<open>fetch\<close> throws.
\<close>

definition directResults ::
  "Env \<Rightarrow> string option \<Rightarrow> (string \<rightharpoonup> YTVideoDetails) \<Rightarrow> (string \<rightharpoonup> YTChannel) \<Rightarrow> YTSearchItem list
     \<Rightarrow> VideoItem list" where
  "directResults env order detailsMap channelMap items =
     (let kept = filteredItems (getMaxAllowedAge env) detailsMap items;
          (h, r) = prioritizedItems order detailsMap channelMap [kept] 0
      in filter (\<lambda>v. videoId v \<noteq> [] \<and> \<not> isTitleBlocked (title v))
           (map (toVideoItem detailsMap) (h ! r)))"

definition fetchDetails ::
  "Upstream \<Rightarrow> string list \<Rightarrow> ClientState \<Rightarrow> (error + (string \<rightharpoonup> YTVideoDetails)) \<times> ClientState" where
  "fetchDetails up ids st =
     (if ids = [] then (Inr Map.empty, st)
      else (let st1 = st\<lparr>requests := requests st @ [VideosRequest ids]\<rparr>
            in case up_videos up of
                 NetworkError \<Rightarrow> (Inl NetworkFailure, st1)
               | HttpError status reason message \<Rightarrow> (Inr Map.empty, st1)
               | HttpOk ds \<Rightarrow> (Inr (mapOfDetails ds), st1)))"

definition fetchChannels ::
  "Upstream \<Rightarrow> string list \<Rightarrow> ClientState \<Rightarrow> (error + (string \<rightharpoonup> YTChannel)) \<times> ClientState" where
  "fetchChannels up channelIds st =
     (if channelIds = [] then (Inr Map.empty, st)
      else (let st1 = st\<lparr>requests := requests st @ [ChannelsRequest channelIds]\<rparr>
            in case up_channels up of
                 NetworkError \<Rightarrow> (Inl NetworkFailure, st1)
               | HttpError status reason message \<Rightarrow> (Inr Map.empty, st1)
               | HttpOk cs \<Rightarrow> (Inr (mapOfChannels cs), st1)))"

text \<open>
  The per-query dedup at the end of \<^verbatim>\<open>fetchYouTubeDirect\<close>: the seen-set of the
  lower-cased query text is read (or created), filters the results, and is stored back.
\<close>

definition dedupe :: "string \<Rightarrow> VideoItem list \<Rightarrow> ClientState \<Rightarrow> VideoItem list \<times> ClientState" where
  "dedupe q results st =
     (let seenKey = toLowerCase q;
          seen = (case seenMap st seenKey of None \<Rightarrow> {} | Some s \<Rightarrow> s);
          (unique, seen') = uniqueUnseen seen results
      in (unique, st\<lparr>seenMap := (seenMap st)(seenKey \<mapsto> seen')\<rparr>))"

definition youtubeDirectRest ::
  "Env \<Rightarrow> Upstream \<Rightarrow> string \<Rightarrow> SearchOptions \<Rightarrow> ClientState \<Rightarrow> (error + SearchResponse) \<times> ClientState" where
  "youtubeDirectRest env up q opts st =
     (case up_search up of
        NetworkError \<Rightarrow> (Inl NetworkFailure, st)
      | HttpError status reason message \<Rightarrow> (Inl (searchError status reason message), st)
      | HttpOk (items, nextPageToken) \<Rightarrow>
          (let ids = filter (\<lambda>s. s \<noteq> []) (map (\<lambda>i. orEmpty (si_videoId i)) items);
               channelIds = distinctInOrder
                              (filter (\<lambda>s. s \<noteq> []) (map (\<lambda>i. orEmpty (si_channelId i)) items))
           in case fetchDetails up ids st of
                (Inl e, st1) \<Rightarrow> (Inl e, st1)
              | (Inr detailsMap, st1) \<Rightarrow>
                  (case fetchChannels up channelIds st1 of
                     (Inl e, st2) \<Rightarrow> (Inl e, st2)
                   | (Inr channelMap, st2) \<Rightarrow>
                       (let results = directResults env (o_order opts) detailsMap channelMap items;
                            (unique, st3) = dedupe q results st2
                        in (Inr \<lparr>r_q = q, r_items = unique,
                                 r_nextPageToken = orNull nextPageToken, r_cached = None\<rparr>,
                            st3)))))"

text \<open>\<^verbatim>\<open>fetchYouTubeDirect\<close> as a whole, awaited.\<close>

definition fetchYouTubeDirect ::
  "Env \<Rightarrow> Upstream \<Rightarrow> int \<Rightarrow> string \<Rightarrow> string option \<Rightarrow> SearchOptions \<Rightarrow> ClientState
     \<Rightarrow> (error + SearchResponse) \<times> ClientState" where
  "fetchYouTubeDirect env up now q pageToken opts st =
     (case youtubeDirectCheck env now opts of
        Some e \<Rightarrow> (Inl e, st)
      | None \<Rightarrow>
          youtubeDirectRest env up q opts
            (st\<lparr>requests := requests st @ [SearchRequest q (orEmpty pageToken) opts]\<rparr>))"

text \<open>\<^verbatim>\<open>fetchViaProxy\<close>, from the answer of the proxy on.\<close>

definition proxyResult :: "Upstream \<Rightarrow> error + SearchResponse" where
  "proxyResult up =
     (case up_proxy up of
        NetworkError \<Rightarrow> Inl NetworkFailure
      | HttpError status reason message \<Rightarrow> Inl (ProxyFailed status)
      | HttpOk r \<Rightarrow> Inr r)"

section \<open>Search client: fetchSearch\<close>

definition MAX_AGE_MS :: int where
  "MAX_AGE_MS = 15 * 60 * 1000"

text \<open>The first lines of \<^verbatim>\<open>fetchSearch\<close>: the error it throws, or the cache key.\<close>

definition cacheKeyFor ::
  "Env \<Rightarrow> int \<Rightarrow> string \<Rightarrow> string option \<Rightarrow> SearchOptions \<Rightarrow> error + cachekey" where
  "cacheKeyFor env now q pageToken opts =
     (let qSan = sanitizeQuery q
      in if qSan = [] then Inl (Error ''Query is empty'')
         else case normalizeSearchOptions (env_tza env) now opts of
                Inl e \<Rightarrow> Inl e
              | Inr normOpts \<Rightarrow> Inr (makeSearchKey qSan pageToken normOpts (env_youtubeKey env \<noteq> [])))"

text \<open>
  What a call of \<^verbatim>\<open>fetchSearch\<close> comes to before it gives control back: a rejected
  promise, a resolved one (a cache hit), or a pending one, which is identified by its
  number.
\<close>

datatype outcome = Rejected error | Resolved SearchResponse | Pending nat

text \<open>
  No cache has the key: the call shares the pending operation for the key, or starts
  one.  Starting runs \<^verbatim>\<open>fetchYouTubeDirect\<close> or \<^verbatim>\<open>fetchViaProxy\<close> up to the first
  \<^verbatim>\<open>await\<close>, which sends the search request, and registers the promise.
\<close>

definition startOrShare :: "Env \<Rightarrow> int \<Rightarrow> cachekey \<Rightarrow> ClientState \<Rightarrow> outcome \<times> ClientState" where
  "startOrShare env now cacheKey st =
     (case inFlightSearch st cacheKey of
        Some inFlight \<Rightarrow> (Pending (p_id inFlight), st)
      | None \<Rightarrow>
          (let (qSan, pageToken, normOpts, yt) = cacheKey;
               failed = (if yt then youtubeDirectCheck env now normOpts else None);
               request = (if yt then SearchRequest qSan pageToken normOpts
                          else ProxyRequest qSan pageToken normOpts);
               promise = \<lparr>p_id = promises st, p_failed = failed\<rparr>
           in (Pending (p_id promise),
               st\<lparr>inFlightSearch := (inFlightSearch st)(cacheKey \<mapsto> promise),
                   requests := (if failed = None then requests st @ [request] else requests st),
                   promises := promises st + 1\<rparr>)))"

definition sessionLookup :: "Env \<Rightarrow> int \<Rightarrow> cachekey \<Rightarrow> ClientState \<Rightarrow> outcome \<times> ClientState" where
  "sessionLookup env now cacheKey st =
     (case (if env_sessionStorage env then sessionStorage st cacheKey else None) of
        Some (at, data) \<Rightarrow>
          if now - at < MAX_AGE_MS
            then (let res = data\<lparr>r_cached := Some True\<rparr>
                  in (Resolved res, st\<lparr>searchCache := (searchCache st)(cacheKey \<mapsto> res)\<rparr>))
          else startOrShare env now cacheKey
                 (st\<lparr>sessionStorage := (sessionStorage st)(cacheKey := None)\<rparr>)
      | None \<Rightarrow> startOrShare env now cacheKey st)"

definition fetchSearchStart ::
  "Env \<Rightarrow> int \<Rightarrow> string \<Rightarrow> string option \<Rightarrow> SearchOptions \<Rightarrow> ClientState \<Rightarrow> outcome \<times> ClientState" where
  "fetchSearchStart env now q pageToken opts st =
     (case cacheKeyFor env now q pageToken opts of
        Inl e \<Rightarrow> (Rejected e, st)
      | Inr cacheKey \<Rightarrow>
          (case searchCache st cacheKey of
             Some cachedMem \<Rightarrow> (Resolved (cachedMem\<lparr>r_cached := Some True\<rparr>), st)
           | None \<Rightarrow> sessionLookup env now cacheKey st))"

text \<open>
  The pending operation for a key settles: the rest of the \<^verbatim>\<open>async\<close> body runs with the
  answers \<open>up\<close> of the network, at time \<open>doneAt\<close>.  The result is the promise's number
  with the value or the error that every holder of the promise receives; \<open>None\<close> when
  nothing is pending for the key.
\<close>

definition defensiveFilter :: "VideoItem list \<Rightarrow> VideoItem list" where
  "defensiveFilter vs = filter (\<lambda>v. videoId v \<noteq> [] \<and> \<not> isTitleBlocked (title v)) vs"

definition settleSearch ::
  "Env \<Rightarrow> Upstream \<Rightarrow> int \<Rightarrow> cachekey \<Rightarrow> ClientState
     \<Rightarrow> (nat \<times> (error + SearchResponse)) option \<times> ClientState" where
  "settleSearch env up doneAt cacheKey st =
     (case inFlightSearch st cacheKey of
        None \<Rightarrow> (None, st)
      | Some promise \<Rightarrow>
          (let (qSan, pageToken, normOpts, yt) = cacheKey;
               (res, st1) = (case p_failed promise of
                               Some e \<Rightarrow> (Inl e, st)
                             | None \<Rightarrow> if yt then youtubeDirectRest env up qSan normOpts st
                                       else (proxyResult up, st))
           in case res of
                Inl e \<Rightarrow>
                  (Some (p_id promise, Inl e),
                   st1\<lparr>inFlightSearch := (inFlightSearch st1)(cacheKey := None)\<rparr>)
              | Inr result \<Rightarrow>
                  (let toCache = result\<lparr>r_items := defensiveFilter (r_items result)\<rparr>
                   in (Some (p_id promise, Inr toCache),
                       st1\<lparr>searchCache := (searchCache st1)(cacheKey \<mapsto> toCache),
                           sessionStorage :=
                             (if env_sessionStorage env
                                then (sessionStorage st1)(cacheKey \<mapsto> (doneAt, toCache))
                              else sessionStorage st1),
                           inFlightSearch := (inFlightSearch st1)(cacheKey := None)\<rparr>))))"

text \<open>
  \<^verbatim>\<open>await fetchSearch(q, pageToken, opts)\<close> with nothing else running in between: the
  call, and for a pending promise the settling of its operation.
\<close>

definition fetchSearch ::
  "Env \<Rightarrow> Upstream \<Rightarrow> int \<Rightarrow> int \<Rightarrow> string \<Rightarrow> string option \<Rightarrow> SearchOptions \<Rightarrow> ClientState
     \<Rightarrow> (error + SearchResponse) \<times> ClientState" where
  "fetchSearch env up now doneAt q pageToken opts st =
     (case fetchSearchStart env now q pageToken opts st of
        (Rejected e, st1) \<Rightarrow> (Inl e, st1)
      | (Resolved r, st1) \<Rightarrow> (Inr r, st1)
      | (Pending n, st1) \<Rightarrow>
          (case cacheKeyFor env now q pageToken opts of
             Inl e \<Rightarrow> (Inl e, st1)
           | Inr cacheKey \<Rightarrow>
               (case settleSearch env up doneAt cacheKey st1 of
                  (Some (m, res), st2) \<Rightarrow> (res, st2)
                | (None, st2) \<Rightarrow> (Inl NetworkFailure, st2))))"

section \<open>Orchestrator: incremental load\<close>

definition AI_KEYWORDS :: "string list" where
  "AI_KEYWORDS = [''ai music video'', ''ai song'', ''ai ethnic music'', ''ai music'']"

definition BATCH_SIZE :: int where
  "BATCH_SIZE = 30"

definition MONTH_CAP :: nat where
  "MONTH_CAP = 12"

text \<open>\<^verbatim>\<open>a !== b\<close> on numbers: NaN differs from every number and from itself.\<close>

definition neq_num :: "number \<Rightarrow> number \<Rightarrow> bool" where
  "neq_num a b = (case (a, b) of (Some x, Some y) \<Rightarrow> x \<noteq> y | _ \<Rightarrow> True)"

text \<open>\<^verbatim>\<open>minusMonths(d, months)\<close>.\<close>

definition minusMonths :: "int \<Rightarrow> number \<Rightarrow> int \<Rightarrow> number" where
  "minusMonths tza d months =
     (let day = getDate tza d;
          dt = setMonth tza d (minus_num (getMonth tza d) (Some months))
      in if neq_num (getDate tza dt) day then setDate tza dt (Some 0) else dt)"

text \<open>
  \<^verbatim>\<open>computeNextMonthWindow(offsetMonths)\<close>; \<open>oldest\<close> is \<^verbatim>\<open>oldestPublishedDateRef.current\<close>
  (\<open>None\<close> for the empty string) and \<open>nowT\<close> the clock reading of \<^verbatim>\<open>now()\<close>.
\<close>

definition computeNextMonthWindow ::
  "int \<Rightarrow> int \<Rightarrow> datestr option \<Rightarrow> int \<Rightarrow> error + (datestr \<times> datestr)" where
  "computeNextMonthWindow tza nowT oldestPublished offsetMonths =
     (let oldest = (case oldestPublished of None \<Rightarrow> TimeClip nowT | Some s \<Rightarrow> newDate s);
          windowEndDate = minusMonths tza oldest (offsetMonths - 1);
          windowStartDate = minusMonths tza oldest offsetMonths
      in case toISOString windowStartDate of
           Inl e \<Rightarrow> Inl e
         | Inr a \<Rightarrow> (case toISOString windowEndDate of Inl e \<Rightarrow> Inl e | Inr b \<Rightarrow> Inr (a, b)))"

text \<open>
  The state of \<^verbatim>\<open>App\<close> that the incremental load works on: the refs
  \<^verbatim>\<open>oldestPublishedDateRef\<close>, \<^verbatim>\<open>monthsBackCounterRef\<close>, \<^verbatim>\<open>keywordIndexRef\<close>,
  \<^verbatim>\<open>globalDisplayedIdsRef\<close>, \<^verbatim>\<open>loadingMoreRef\<close>, the pool \<^verbatim>\<open>allVideos\<close> and the error
  shown; \<open>searches\<close> counts the calls of \<^verbatim>\<open>fetchSearch\<close> made so far.
\<close>

record AppState =
  oldestPublishedDate :: "datestr option"
  monthsBackCounter :: "string \<rightharpoonup> int"
  keywordIndex :: nat
  globalDisplayedIds :: "string set"
  loadingMore :: bool
  allVideos :: "VideoItem list"
  shownError :: "string option"
  searches :: nat

text \<open>
  \<^verbatim>\<open>fetchSearch\<close> as the orchestrator sees it: what the call number \<open>n\<close> of the session
  returns for a keyword and options.  Any behaviour of the search client and of the
  network is such a function.
\<close>

type_synonym search = "nat \<Rightarrow> string \<Rightarrow> SearchOptions \<Rightarrow> error + SearchResponse"

definition windowOptions :: "datestr \<Rightarrow> datestr \<Rightarrow> SearchOptions" where
  "windowOptions after before =
     \<lparr>o_order = Some ''date'', o_maxResults = Some BATCH_SIZE,
      o_publishedAfter = Some after, o_publishedBefore = Some before,
      o_kidFriendlyOnly = Some True, o_videoCategoryId = None, o_videoDuration = None,
      o_videoSyndicated = None\<rparr>"

text \<open>
  \<^verbatim>\<open>(resp.items || []).filter(v => v && v.videoId && !globalDisplayedIdsRef.current.has(v.videoId))\<close>:
  the items of a response that have an id and whose id is not in the global seen-set.
\<close>

definition newItems :: "string set \<Rightarrow> SearchResponse \<Rightarrow> VideoItem list" where
  "newItems seen resp = filter (\<lambda>v. videoId v \<noteq> [] \<and> videoId v \<notin> seen) (r_items resp)"

text \<open>
  The loop of \<^verbatim>\<open>fetchNextMonthWindowGlobal\<close>; the third argument from the right counts
  the attempts that remain (\<^verbatim>\<open>MONTH_CAP - attempts\<close>).
\<close>

fun windowAttempts ::
  "search \<Rightarrow> int \<Rightarrow> int \<Rightarrow> string \<Rightarrow> nat \<Rightarrow> int \<Rightarrow> AppState \<Rightarrow> (error + VideoItem list) \<times> AppState" where
  "windowAttempts fetch tza nowT kw 0 counter st = (Inr [], st)"
| "windowAttempts fetch tza nowT kw (Suc remaining) counter st =
     (case computeNextMonthWindow tza nowT (oldestPublishedDate st) counter of
        Inl e \<Rightarrow> (Inl e, st)
      | Inr (after, before) \<Rightarrow>
          (let st1 = st\<lparr>searches := searches st + 1\<rparr>
           in case fetch (searches st) kw (windowOptions after before) of
                Inl e \<Rightarrow> (Inl e, st1)
              | Inr resp \<Rightarrow>
                  (let filtered = newItems (globalDisplayedIds st1) resp;
                       st2 = st1\<lparr>monthsBackCounter := (monthsBackCounter st1)(kw \<mapsto> counter + 1)\<rparr>
                   in if length filtered > 0 then (Inr filtered, st2)
                      else windowAttempts fetch tza nowT kw remaining (counter + 1) st2)))"

text \<open>The keyword that the next call selects, and \<^verbatim>\<open>monthsBackCounterRef.current[kw] || 1\<close>.\<close>

definition selectedKeyword :: "AppState \<Rightarrow> string" where
  "selectedKeyword st = AI_KEYWORDS ! (keywordIndex st mod length AI_KEYWORDS)"

definition startCounter :: "AppState \<Rightarrow> string \<Rightarrow> int" where
  "startCounter st kw =
     (case monthsBackCounter st kw of None \<Rightarrow> 1 | Some c \<Rightarrow> if c = 0 then 1 else c)"

definition fetchNextMonthWindowGlobal ::
  "search \<Rightarrow> int \<Rightarrow> int \<Rightarrow> AppState \<Rightarrow> (error + VideoItem list) \<times> AppState" where
  "fetchNextMonthWindowGlobal fetch tza nowT st =
     (let idx = keywordIndex st mod length AI_KEYWORDS;
          kw = AI_KEYWORDS ! idx;
          st1 = st\<lparr>keywordIndex := (idx + 1) mod length AI_KEYWORDS\<rparr>;
          counter = startCounter st1 kw
      in windowAttempts fetch tza nowT kw MONTH_CAP counter st1)"

text \<open>
  \<^verbatim>\<open>loadMoreForAny\<close>, awaited; the result is the batch that the call adds to the pool
  (empty when another load is running, when no window has a new video, or on an error).
  \<open>addToPool\<close> is the body of \<^verbatim>\<open>if (items && items.length > 0)\<close>, \<open>reportError\<close>
  that of the \<^verbatim>\<open>catch\<close>.
\<close>

definition addToPool :: "VideoItem list \<Rightarrow> AppState \<Rightarrow> AppState" where
  "addToPool items st =
     (if length items > 0
        then st\<lparr>globalDisplayedIds := globalDisplayedIds st \<union> set (map videoId items),
                allVideos := allVideos st @ items\<rparr>
      else st)"

definition reportError :: "AppState \<Rightarrow> AppState" where
  "reportError st =
     st\<lparr>shownError := (case shownError st of
                            None \<Rightarrow> Some ''Failed to load more items. Please try again later.''
                          | Some m \<Rightarrow> Some m)\<rparr>"

definition loadMoreForAny :: "search \<Rightarrow> int \<Rightarrow> int \<Rightarrow> AppState \<Rightarrow> VideoItem list \<times> AppState" where
  "loadMoreForAny fetch tza nowT st =
     (if loadingMore st then ([], st)
      else case fetchNextMonthWindowGlobal fetch tza nowT (st\<lparr>loadingMore := True\<rparr>) of
             (Inl e, st1) \<Rightarrow> ([], (reportError st1)\<lparr>loadingMore := False\<rparr>)
           | (Inr items, st1) \<Rightarrow> (items, (addToPool items st1)\<lparr>loadingMore := False\<rparr>))"

section \<open>Sequences of fetches\<close>

text \<open>
  A sequence of calls, each on the state that the one before it left: the results in
  order, and the last state.
\<close>

fun runAll :: "('c \<Rightarrow> 's \<Rightarrow> 'r \<times> 's) \<Rightarrow> 'c list \<Rightarrow> 's \<Rightarrow> 'r list \<times> 's" where
  "runAll step [] s = ([], s)"
| "runAll step (c # cs) s =
     (let (r, s1) = step c s; (rs, s2) = runAll step cs s1 in (r # rs, s2))"

text \<open>A call of \<^verbatim>\<open>fetchYouTubeDirect\<close>: what the caller passes and what the network answers.\<close>

record DirectCall =
  dc_env :: Env
  dc_upstream :: Upstream
  dc_now :: int
  dc_q :: string
  dc_pageToken :: "string option"
  dc_opts :: SearchOptions

definition directFetch :: "DirectCall \<Rightarrow> ClientState \<Rightarrow> (error + SearchResponse) \<times> ClientState" where
  "directFetch c st =
     fetchYouTubeDirect (dc_env c) (dc_upstream c) (dc_now c) (dc_q c) (dc_pageToken c) (dc_opts c) st"

text \<open>
  The seen-set of a scope (a lower-cased query text), and the ids that a fetch returned
  from that scope: those of its batch when the fetch is for that query text and
  returned, none otherwise.
\<close>

definition seenOf :: "ClientState \<Rightarrow> string \<Rightarrow> string set" where
  "seenOf st seenKey = (case seenMap st seenKey of None \<Rightarrow> {} | Some s \<Rightarrow> s)"

definition scopeIds :: "string \<Rightarrow> DirectCall \<Rightarrow> error + SearchResponse \<Rightarrow> string set" where
  "scopeIds seenKey c res =
     (case res of
        Inl e \<Rightarrow> {}
      | Inr r \<Rightarrow> if toLowerCase (dc_q c) = seenKey then set (map videoId (r_items r)) else {})"

definition resultIds :: "error + SearchResponse \<Rightarrow> string set" where
  "resultIds res = (case res of Inl e \<Rightarrow> {} | Inr r \<Rightarrow> set (map videoId (r_items r)))"

definition batchIds :: "VideoItem list \<Rightarrow> string set" where
  "batchIds items = set (map videoId items)"

text \<open>\<open>disjointBatches\<close>: no id is in two of the sets.\<close>

definition disjointBatches :: "string set list \<Rightarrow> bool" where
  "disjointBatches bs = sorted_wrt (\<lambda>A B. A \<inter> B = {}) bs"

text \<open>
  Calls of \<^verbatim>\<open>fetchSearch\<close> that overlap.  The program is single-threaded: what happens
  is a sequence of events, each of which is a call of \<^verbatim>\<open>fetchSearch\<close> (up to the promise
  that it returns) or the settling of the pending operation of a key (the rest of its
  \<^verbatim>\<open>async\<close> body, with the answers of the network).
\<close>

record SearchCall =
  sc_now :: int
  sc_q :: string
  sc_pageToken :: "string option"
  sc_opts :: SearchOptions

datatype event = Call SearchCall | Settle Upstream int cachekey

datatype effect = Returned outcome | Settled "(nat \<times> (error + SearchResponse)) option"

definition callKey :: "Env \<Rightarrow> SearchCall \<Rightarrow> error + cachekey" where
  "callKey env c = cacheKeyFor env (sc_now c) (sc_q c) (sc_pageToken c) (sc_opts c)"

definition startCall :: "Env \<Rightarrow> SearchCall \<Rightarrow> ClientState \<Rightarrow> outcome \<times> ClientState" where
  "startCall env c st = fetchSearchStart env (sc_now c) (sc_q c) (sc_pageToken c) (sc_opts c) st"

fun eventStep :: "Env \<Rightarrow> event \<Rightarrow> ClientState \<Rightarrow> effect \<times> ClientState" where
  "eventStep env (Call c) st = (let (out, st1) = startCall env c st in (Returned out, st1))"
| "eventStep env (Settle up doneAt cacheKey) st =
     (let (r, st1) = settleSearch env up doneAt cacheKey st in (Settled r, st1))"

section \<open>What the ranking and the classifier are checked against\<close>

text \<open>The publication time of a candidate, a missing \<^verbatim>\<open>publishedAt\<close> read as the epoch.\<close>

definition publishedTime :: "YTSearchItem \<Rightarrow> int" where
  "publishedTime i = (case si_publishedAt i of Some (Parses t) \<Rightarrow> t | _ \<Rightarrow> 0)"

definition datesParse :: "YTSearchItem list \<Rightarrow> bool" where
  "datesParse items = (\<forall>i\<in>set items. si_publishedAt i \<noteq> Some Unparseable)"

text \<open>
  \<open>rankedBefore a b\<close>: the ranking policy allows \<open>a\<close> to stand before \<open>b\<close>.  A
  candidate not made for kids never stands before one that is; with equal flags, a
  channel below 100000 subscribers never stands before an established one; with both
  equal and the order \<^verbatim>\<open>date\<close>, the earlier published never stands before the later.
\<close>

definition rankedBefore ::
  "bool \<Rightarrow> (string \<rightharpoonup> YTVideoDetails) \<Rightarrow> (string \<rightharpoonup> YTChannel) \<Rightarrow> YTSearchItem \<Rightarrow> YTSearchItem \<Rightarrow> bool" where
  "rankedBefore byDate detailsMap channelMap a b =
     (let mka = isMadeForKids (detailsOf detailsMap a); mkb = isMadeForKids (detailsOf detailsMap b);
          va = isVerified channelMap a; vb = isVerified channelMap b
      in (mkb \<longrightarrow> mka) \<and>
         (mka = mkb \<longrightarrow> (vb \<longrightarrow> va) \<and>
            (va = vb \<and> byDate \<longrightarrow> publishedTime b \<le> publishedTime a)))"

definition rankKey ::
  "bool \<Rightarrow> (string \<rightharpoonup> YTVideoDetails) \<Rightarrow> (string \<rightharpoonup> YTChannel) \<Rightarrow> YTSearchItem \<Rightarrow> int \<times> int \<times> int" where
  "rankKey byDate detailsMap channelMap a =
     (if isMadeForKids (detailsOf detailsMap a) then 0 else 1,
      if isVerified channelMap a then 0 else 1,
      if byDate then - publishedTime a else 0)"

text \<open>
  \<open>ranked\<close>: in the store after the call, the input array is what it was, and the
  returned array is a rearrangement of it in which every element is \<open>rankedBefore\<close>
  every later one.
\<close>

definition ranked ::
  "bool \<Rightarrow> (string \<rightharpoonup> YTVideoDetails) \<Rightarrow> (string \<rightharpoonup> YTChannel) \<Rightarrow> YTSearchItem store \<Rightarrow> nat
     \<Rightarrow> YTSearchItem store \<times> nat \<Rightarrow> bool" where
  "ranked byDate detailsMap channelMap h filteredRef res =
     (case res of (h', r) \<Rightarrow>
        h' ! filteredRef = h ! filteredRef \<and>
        mset (h' ! r) = mset (h ! filteredRef) \<and>
        sorted_wrt (rankedBefore byDate detailsMap channelMap) (h' ! r))"

text \<open>
  Windows as intervals of time values.  \<open>validWindow w\<close>: both ends are dates and
  \<^verbatim>\<open>publishedAfter\<close> is strictly before \<^verbatim>\<open>publishedBefore\<close>.  \<open>atOrBefore u v\<close>:
  the window \<open>v\<close> ends at or before the start of \<open>u\<close>, so the half-open intervals do
  not overlap.
\<close>

definition validWindow :: "DateWindow \<Rightarrow> bool" where
  "validWindow w =
     (case (w_publishedAfter w, w_publishedBefore w) of
        (Parses a, Parses b) \<Rightarrow> a < b | _ \<Rightarrow> False)"

definition atOrBefore :: "DateWindow \<Rightarrow> DateWindow \<Rightarrow> bool" where
  "atOrBefore u v =
     (case (w_publishedBefore v, w_publishedAfter u) of
        (Parses b, Parses a) \<Rightarrow> b \<le> a | _ \<Rightarrow> False)"

text \<open>
  \<open>windowChain w ws\<close>: the windows \<open>ws\<close> produced from \<open>w\<close> are valid, each begins
  where its predecessor's \<^verbatim>\<open>publishedAfter\<close> stands, and every later window lies at or
  before the start of every earlier one.
\<close>

fun adjacentWindows :: "DateWindow \<Rightarrow> DateWindow list \<Rightarrow> bool" where
  "adjacentWindows w [] = True"
| "adjacentWindows w (v # vs) =
     (w_publishedBefore v = w_publishedAfter w \<and> adjacentWindows v vs)"

definition windowChain :: "DateWindow \<Rightarrow> DateWindow list \<Rightarrow> bool" where
  "windowChain w ws =
     (list_all validWindow ws \<and> adjacentWindows w ws \<and> sorted_wrt atOrBefore (w # ws))"

text \<open>
  \<open>staysInRange w monthsBack n\<close>: the start of \<open>w\<close> is a date, and \<open>n\<close> steps of
  \<open>monthsBack\<close> months (of at most 31 days) back from it do not leave the range of
  time values that a \<^verbatim>\<open>Date\<close> can hold.
\<close>

definition staysInRange :: "DateWindow \<Rightarrow> int \<Rightarrow> nat \<Rightarrow> bool" where
  "staysInRange w monthsBack n =
     (case w_publishedAfter w of
        Parses a \<Rightarrow> a \<le> maxTime \<and> - maxTime \<le> a - int n * (31 * monthsBack * msPerDay)
      | Unparseable \<Rightarrow> False)"

text \<open>
  \<open>invalidQuery\<close>: the query text is empty or all white space, or the window that
  the normalisation settles on does not have \<^verbatim>\<open>publishedAfter\<close> strictly before
  \<^verbatim>\<open>publishedBefore\<close>.
\<close>

definition invalidQuery :: "Env \<Rightarrow> int \<Rightarrow> string \<Rightarrow> SearchOptions \<Rightarrow> bool" where
  "invalidQuery env now q opts =
     (list_all isWhiteSpace q \<or>
      (case getDefaultDateWindow (env_tza env) now of
         Inl e \<Rightarrow> False
       | Inr def \<Rightarrow>
           (case windowOrDefault def opts of
              (afterIso, beforeIso) \<Rightarrow> \<not> less_num (newDate afterIso) (newDate beforeIso))))"

text \<open>
  The windows that an incremental load has before it, for the keyword \<open>kw\<close> and the
  counter \<open>counter\<close> in the state \<open>st\<close>: \<open>windowResponse \<dots> i\<close> is what
  \<^verbatim>\<open>fetchSearch\<close> answers for the window of offset \<open>counter + i\<close> when it is the
  attempt number \<open>i\<close> (an error when the window cannot be written as ISO strings).
  A window is empty when the search returned and every id that it returned is in the
  seen-set (an item with the empty string as id has none), and yields new videos when
  the search returned an item with an id outside the seen-set.
\<close>

definition windowResponse ::
  "search \<Rightarrow> int \<Rightarrow> int \<Rightarrow> AppState \<Rightarrow> string \<Rightarrow> int \<Rightarrow> nat \<Rightarrow> error + SearchResponse" where
  "windowResponse fetch tza nowT st kw counter i =
     (case computeNextMonthWindow tza nowT (oldestPublishedDate st) (counter + int i) of
        Inl e \<Rightarrow> Inl e
      | Inr (after, before) \<Rightarrow> fetch (searches st + i) kw (windowOptions after before))"

text \<open>The same for the keyword and the counter that the next incremental load selects.\<close>

definition nextWindow :: "search \<Rightarrow> int \<Rightarrow> int \<Rightarrow> AppState \<Rightarrow> nat \<Rightarrow> error + SearchResponse" where
  "nextWindow fetch tza nowT st i =
     windowResponse fetch tza nowT st (selectedKeyword st) (startCounter st (selectedKeyword st)) i"

definition emptyWindow :: "string set \<Rightarrow> error + SearchResponse \<Rightarrow> bool" where
  "emptyWindow seen r =
     (case r of
        Inl e \<Rightarrow> False
      | Inr resp \<Rightarrow> list_all (\<lambda>v. videoId v = [] \<or> videoId v \<in> seen) (r_items resp))"

definition yieldsNew :: "string set \<Rightarrow> error + SearchResponse \<Rightarrow> bool" where
  "yieldsNew seen r =
     (case r of
        Inl e \<Rightarrow> False
      | Inr resp \<Rightarrow> list_ex (\<lambda>v. videoId v \<noteq> [] \<and> videoId v \<notin> seen) (r_items resp))"

definition responseItems :: "string set \<Rightarrow> error + SearchResponse \<Rightarrow> VideoItem list" where
  "responseItems seen r = (case r of Inl e \<Rightarrow> [] | Inr resp \<Rightarrow> newItems seen resp)"

text \<open>
  The upstream request of the operation for a cache key, and how many times it has
  been sent.  \<open>noSettle\<close>: the operation of the key does not settle in these events.
  \<open>shared\<close>: every call among the events that has the key returned the promise
  number \<open>n\<close>.
\<close>

definition keyRequest :: "cachekey \<Rightarrow> request" where
  "keyRequest cacheKey =
     (let (qSan, pageToken, normOpts, yt) = cacheKey
      in if yt then SearchRequest qSan pageToken normOpts else ProxyRequest qSan pageToken normOpts)"

definition sent :: "cachekey \<Rightarrow> ClientState \<Rightarrow> nat" where
  "sent cacheKey st = count_list (requests st) (keyRequest cacheKey)"

definition noSettle :: "cachekey \<Rightarrow> event list \<Rightarrow> bool" where
  "noSettle cacheKey events =
     list_all (\<lambda>e. case e of Call c \<Rightarrow> True | Settle up doneAt k \<Rightarrow> k \<noteq> cacheKey) events"

definition shared :: "Env \<Rightarrow> cachekey \<Rightarrow> nat \<Rightarrow> event list \<Rightarrow> effect list \<Rightarrow> bool" where
  "shared env cacheKey n events effects =
     list_all (\<lambda>(e, r). case e of
                           Call c \<Rightarrow> callKey env c = Inr cacheKey \<longrightarrow> r = Returned (Pending n)
                         | Settle up doneAt k \<Rightarrow> True)
       (zip events effects)"

text \<open>
  \<open>pendingFor\<close>: the state while the operation number \<open>n\<close> of the key is pending.
\<close>

definition pendingFor :: "Env \<Rightarrow> cachekey \<Rightarrow> nat \<Rightarrow> ClientState \<Rightarrow> bool" where
  "pendingFor env cacheKey n st =
     (inFlightSearch st cacheKey = Some \<lparr>p_id = n, p_failed = None\<rparr> \<and>
      searchCache st cacheKey = None \<and>
      (env_sessionStorage env \<longrightarrow> sessionStorage st cacheKey = None) \<and>
      n < promises st)"

section \<open>Example inputs\<close>

definition ex_item1 :: YTSearchItem where
  "ex_item1 = \<lparr>si_videoId = Some ''v1'', si_channelId = Some ''ch1'',
     si_title = Some ''Happy AI Song'', si_channelTitle = None, si_publishedAt = Some (Parses 3000),
     si_thumbnailMedium = None, si_thumbnailDefault = None, si_description = Some ''calm tune''\<rparr>"

definition ex_item2 :: YTSearchItem where
  "ex_item2 = ex_item1\<lparr>si_videoId := Some ''v2'', si_channelId := Some ''ch2'',
     si_title := Some ''Robot WAR anthem'', si_publishedAt := Some (Parses 2000)\<rparr>"

definition ex_item3 :: YTSearchItem where
  "ex_item3 = ex_item1\<lparr>si_videoId := Some ''v3'', si_channelId := None,
     si_publishedAt := Some (Parses 1000)\<rparr>"

definition ex_detailsMap :: "string \<rightharpoonup> YTVideoDetails" where
  "ex_detailsMap =
     [''v1'' \<mapsto> \<lparr>d_id = ''v1'', d_duration = None, d_ytRating = None, d_viewCount = Some (Numeric 12),
         d_madeForKids = Some True, d_tags = Some [''Lullaby''], d_categoryId = None\<rparr>,
      ''v3'' \<mapsto> \<lparr>d_id = ''v3'', d_duration = None, d_ytRating = Some ''ytAgeRestricted'',
         d_viewCount = None, d_madeForKids = None, d_tags = None, d_categoryId = None\<rparr>]"

definition ex_item4 :: YTSearchItem where
  "ex_item4 = ex_item1\<lparr>si_videoId := Some ''v4'', si_publishedAt := Some (Parses 500)\<rparr>"

definition ex_channelMap :: "string \<rightharpoonup> YTChannel" where
  "ex_channelMap =
     [''ch1'' \<mapsto> \<lparr>c_id = ''ch1'', c_subscriberCount = Some ''250000''\<rparr>,
      ''ch2'' \<mapsto> \<lparr>c_id = ''ch2'', c_subscriberCount = Some ''99''\<rparr>]"

definition ex_video :: VideoItem where
  "ex_video = \<lparr>videoId = ''a'', title = Some ''Song'', channelTitle = None, thumbnailUrl = None,
     publishedAt = Some (Parses 1000), duration = None, viewCount = Some NonNumeric,
     description = None, tags = [], videoCategoryId = None, madeForKids = False\<rparr>"

definition ex_video_b :: VideoItem where
  "ex_video_b = ex_video\<lparr>videoId := ''b'', viewCount := Some (Numeric 10)\<rparr>"

definition ex_video_c :: VideoItem where
  "ex_video_c = ex_video\<lparr>videoId := ''c'', viewCount := None\<rparr>"

definition ex_video_d :: VideoItem where
  "ex_video_d = ex_video\<lparr>videoId := ''d'', viewCount := Some (Numeric 7)\<rparr>"

definition ex_window :: DateWindow where
  "ex_window = \<lparr>w_publishedAfter = Parses 1711843200000, w_publishedBefore = Parses 1714435200000\<rparr>"

definition ex_window1 :: DateWindow where
  "ex_window1 = \<lparr>w_publishedAfter = Parses 1709337600000, w_publishedBefore = Parses 1711843200000\<rparr>"

definition ex_window2 :: DateWindow where
  "ex_window2 = \<lparr>w_publishedAfter = Parses 1706832000000, w_publishedBefore = Parses 1709337600000\<rparr>"

definition ex_env :: Env where
  "ex_env = \<lparr>env_tza = 0, env_youtubeKey = [], env_maxAllowedAge = None, env_sessionStorage = True\<rparr>"

definition ex_now :: int where
  "ex_now = 1711843200000"

definition ex_state :: ClientState where
  "ex_state = \<lparr>searchCache = Map.empty, sessionStorage = Map.empty, inFlightSearch = Map.empty,
     seenMap = Map.empty, requests = [], promises = 0\<rparr>"

definition ex_opts :: SearchOptions where
  "ex_opts = \<lparr>o_order = Some ''date'', o_maxResults = Some 30,
     o_publishedAfter = Some (Parses 1000), o_publishedBefore = Some (Parses 2000),
     o_kidFriendlyOnly = Some True, o_videoCategoryId = None, o_videoDuration = None,
     o_videoSyndicated = None\<rparr>"

definition ex_opts_inverted :: SearchOptions where
  "ex_opts_inverted = ex_opts\<lparr>o_publishedAfter := Some (Parses 2000),
     o_publishedBefore := Some (Parses 1000)\<rparr>"

definition ex_response :: SearchResponse where
  "ex_response = \<lparr>r_q = ''ai music'', r_items = [ex_video_b], r_nextPageToken = None,
     r_cached = None\<rparr>"

definition ex_up :: Upstream where
  "ex_up = \<lparr>up_search = NetworkError, up_videos = NetworkError, up_channels = NetworkError,
     up_proxy = HttpOk ex_response\<rparr>"

definition ex_env_direct :: Env where
  "ex_env_direct = ex_env\<lparr>env_youtubeKey := ''key''\<rparr>"

definition ex_up_direct :: Upstream where
  "ex_up_direct = \<lparr>up_search = HttpOk ([ex_item1, ex_item2, ex_item3], None),
     up_videos = HttpError 500 None [], up_channels = HttpError 500 None [],
     up_proxy = NetworkError\<rparr>"

definition ex_call :: DirectCall where
  "ex_call = \<lparr>dc_env = ex_env_direct, dc_upstream = ex_up_direct, dc_now = ex_now,
     dc_q = ''AI Music'', dc_pageToken = None, dc_opts = ex_opts\<rparr>"

definition ex_app :: AppState where
  "ex_app = \<lparr>oldestPublishedDate = None, monthsBackCounter = Map.empty, keywordIndex = 0,
     globalDisplayedIds = {}, loadingMore = False, allVideos = [], shownError = None,
     searches = 0\<rparr>"

definition ex_app_seen :: AppState where
  "ex_app_seen = ex_app\<lparr>globalDisplayedIds := {''b''}\<rparr>"

definition ex_fetch :: search where
  "ex_fetch n q opts = Inr ex_response"

definition ex_fetch_late :: search where
  "ex_fetch_late n q opts = Inr (if n < 2 then ex_response\<lparr>r_items := []\<rparr> else ex_response)"

section \<open>Properties of the string functions\<close>

lemma startsWith_iff_prefix: "startsWith s k \<longleftrightarrow> prefix k s"
  by (induction s k rule: startsWith.induct) auto

lemma includesStr_iff_sublist: "includesStr s k \<longleftrightarrow> sublist k s"
proof (induction s)
  case Nil
  then show ?case by simp
next
  case (Cons c cs)
  then show ?case
    by (simp add: startsWith_iff_prefix sublist_Cons_right)
qed

lemma toLowerChar_idem: "toLowerChar (toLowerChar c) = toLowerChar c"
  by (auto simp: toLowerChar_def Let_def)

lemma toLowerCase_idem: "toLowerCase (toLowerCase s) = toLowerCase s"
  by (simp add: toLowerCase_def toLowerChar_idem)

text \<open>
  The executable test agrees with the definition in words: some contiguous part of the
  text equals the term up to case.
\<close>

lemma ci_includes_iff:
  "ci_includes s k \<longleftrightarrow> (\<exists>u. sublist u s \<and> toLowerCase u = toLowerCase k)"
proof
  assume "ci_includes s k"
  then have "sublist (map toLowerChar k) (map toLowerChar s)"
    by (simp add: ci_includes_def includesStr_iff_sublist toLowerCase_def)
  then obtain ps ss where "map toLowerChar s = ps @ map toLowerChar k @ ss"
    by (auto simp: sublist_def)
  then obtain a b c where "s = a @ b @ c" "map toLowerChar b = map toLowerChar k"
    by (metis append_eq_map_conv)
  then show "\<exists>u. sublist u s \<and> toLowerCase u = toLowerCase k"
    by (auto simp: sublist_def toLowerCase_def)
next
  assume "\<exists>u. sublist u s \<and> toLowerCase u = toLowerCase k"
  then obtain u where u: "sublist u s" "toLowerCase u = toLowerCase k" by blast
  from u(1) have "sublist (map toLowerChar u) (map toLowerChar s)"
    by (metis map_append sublist_def)
  with u(2) show "ci_includes s k"
    by (simp add: ci_includes_def includesStr_iff_sublist toLowerCase_def)
qed

section \<open>Safety filter: properties\<close>

lemma blocklist_lower: "\<forall>k\<in>set CONTENT_BLOCKLIST. toLowerCase k = k"
  by (simp add: CONTENT_BLOCKLIST_def toLowerCase_def toLowerChar_def)

lemma BLOCKLIST_eq: "BLOCKLIST = CONTENT_BLOCKLIST"
  by (simp add: BLOCKLIST_def CONTENT_BLOCKLIST_def)

lemma some_iff: "some xs p \<longleftrightarrow> (\<exists>x\<in>set xs. p x)"
  by (simp add: some_def list_ex_iff)

lemma isKidFriendly_clean:
  assumes "isKidFriendly maxAge sn det" "k \<in> set CONTENT_BLOCKLIST"
  shows "\<not> ci_includes (orEmpty (si_title sn)) k"
    and "\<not> ci_includes (orEmpty (si_description sn)) k"
    and "\<forall>t\<in>set (tagsOf det). \<not> ci_includes t k"
  using assms blocklist_lower
  by (auto simp: isKidFriendly_def Let_def ci_includes_def some_iff split: if_splits)

lemma isKidFriendly_rating:
  "isKidFriendly maxAge sn det \<Longrightarrow> maxAge < 18 \<Longrightarrow> ratingOf det \<noteq> Some ''ytAgeRestricted''"
  by (auto simp: isKidFriendly_def Let_def split: if_splits)

lemma isBlocked_clean:
  assumes "\<not> isBlocked (Some maxAge) sn det" "k \<in> set CONTENT_BLOCKLIST"
  shows "\<not> ci_includes (orEmpty (si_title sn)) k"
    and "\<not> ci_includes (orEmpty (si_description sn)) k"
    and "\<forall>t\<in>set (tagsOf det). \<not> ci_includes t k"
  using assms blocklist_lower
  by (auto simp: isBlocked_def BLOCKLIST_eq Let_def ci_includes_def some_iff split: if_splits)

lemma isBlocked_rating:
  "\<not> isBlocked (Some maxAge) sn det \<Longrightarrow> maxAge < 18 \<Longrightarrow> ratingOf det \<noteq> Some ''ytAgeRestricted''"
  by (auto simp: isBlocked_def Let_def split: if_splits)

text \<open>
  C1.  With a maximum allowed age below 18, every item that the safety filter lets
  through (\<open>filteredItems\<close> in the browser, \<open>filtered\<close> on the server) has no
  blocklist term as a case-insensitive substring of its title, of its description or of
  any of its tags, and does not carry the rating \<open>ytAgeRestricted\<close>.
\<close>

theorem safety_filter_output:
  assumes "maxAge < 18"
    and "i \<in> set (filteredItems maxAge detailsMap items)
         \<or> i \<in> set (filtered (Some maxAge) detailsMap items)"
  shows "ratingOf (detailsOf detailsMap i) \<noteq> Some ''ytAgeRestricted'' \<and>
         (\<forall>k\<in>set CONTENT_BLOCKLIST.
            \<not> ci_includes (orEmpty (si_title i)) k \<and>
            \<not> ci_includes (orEmpty (si_description i)) k \<and>
            (\<forall>t\<in>set (tagsOf (detailsOf detailsMap i)). \<not> ci_includes t k))"
proof -
  from assms(2) have
    "isKidFriendly maxAge i (detailsOf detailsMap i)
     \<or> \<not> isBlocked (Some maxAge) i (detailsOf detailsMap i)"
    by (auto simp: filteredItems_def filtered_def)
  then show ?thesis
  proof
    assume kf: "isKidFriendly maxAge i (detailsOf detailsMap i)"
    show ?thesis
      using isKidFriendly_clean[OF kf] isKidFriendly_rating[OF kf assms(1)] by blast
  next
    assume nb: "\<not> isBlocked (Some maxAge) i (detailsOf detailsMap i)"
    show ?thesis
      using isBlocked_clean[OF nb] isBlocked_rating[OF nb assms(1)] by blast
  qed
qed

theorem safety_filter_output_witness:
  "(14::int) < 18 \<and>
   filteredItems 14 ex_detailsMap [ex_item1, ex_item2, ex_item3] = [ex_item1] \<and>
   ratingOf (detailsOf ex_detailsMap ex_item1) \<noteq> Some ''ytAgeRestricted'' \<and>
   \<not> ci_includes (orEmpty (si_title ex_item1)) ''war'' \<and>
   \<not> ci_includes (orEmpty (si_description ex_item1)) ''war'' \<and>
   list_all (\<lambda>t. \<not> ci_includes t ''war'') (tagsOf (detailsOf ex_detailsMap ex_item1))"
proof -
  have age: "(14::int) < 18" by simp
  have out: "filteredItems 14 ex_detailsMap [ex_item1, ex_item2, ex_item3] = [ex_item1]"
    by code_simp
  have k: "''war'' \<in> set CONTENT_BLOCKLIST"
    by (simp add: CONTENT_BLOCKLIST_def)
  have mem: "ex_item1 \<in> set (filteredItems 14 ex_detailsMap [ex_item1, ex_item2, ex_item3])
             \<or> ex_item1 \<in> set (filtered (Some 14) ex_detailsMap [ex_item1, ex_item2, ex_item3])"
    by (simp add: out)
  from safety_filter_output[OF age mem] k age out show ?thesis
    by (auto simp: list_all_iff)
qed

section \<open>Sorting: properties\<close>

lemma insertBy_eq_insort_key:
  assumes "\<forall>y\<in>set ys. (compareValue cmp x y \<le> 0 \<longleftrightarrow> key x \<le> key y)"
  shows "insertBy cmp x ys = insort_key key x ys"
  using assms by (induction ys) auto

text \<open>
  Where the comparator agrees with a key into a linear order, the sort is the library's
  stable sort by that key.
\<close>

lemma sortBy_eq_sort_key:
  assumes "\<forall>a\<in>set xs. \<forall>b\<in>set xs. (compareValue cmp a b \<le> 0 \<longleftrightarrow> key a \<le> key b)"
  shows "sortBy cmp xs = sort_key key xs"
  using assms
proof (induction xs)
  case Nil
  then show ?case by (simp add: sortBy_def)
next
  case (Cons x xs)
  have ih: "sortBy cmp xs = sort_key key xs" using Cons by simp
  have "sortBy cmp (x # xs) = insertBy cmp x (sortBy cmp xs)"
    by (simp add: sortBy_def)
  also have "\<dots> = insort_key key x (sort_key key xs)"
    unfolding ih using Cons.prems by (intro insertBy_eq_insort_key) simp
  finally show ?case by (simp add: sort_key_def)
qed

lemma mset_insertBy: "mset (insertBy cmp x ys) = add_mset x (mset ys)"
  by (induction ys) auto

lemma mset_sortBy: "mset (sortBy cmp xs) = mset xs"
  by (induction xs) (auto simp: sortBy_def mset_insertBy)

section \<open>Ranking policy: properties\<close>

lemma rankCompare_key:
  assumes "byDate \<longrightarrow> si_publishedAt a \<noteq> Some Unparseable \<and> si_publishedAt b \<noteq> Some Unparseable"
  shows "compareValue (rankCompare byDate dm cm) a b \<le> 0
         \<longleftrightarrow> rankKey byDate dm cm a \<le> rankKey byDate dm cm b"
proof -
  have t: "byDate \<Longrightarrow> getTimeOr0 (si_publishedAt a) = Some (publishedTime a)
                     \<and> getTimeOr0 (si_publishedAt b) = Some (publishedTime b)"
    using assms
    by (auto simp: getTimeOr0_def publishedTime_def split: option.splits datestr.splits)
  show ?thesis
    using t
    by (auto simp: compareValue_def rankCompare_def rankKey_def Let_def minus_num_def
        less_eq_prod_def less_prod_def)
qed

lemma rankKey_le:
  "rankKey byDate dm cm a \<le> rankKey byDate dm cm b \<Longrightarrow> rankedBefore byDate dm cm a b"
  by (auto simp: rankKey_def rankedBefore_def Let_def less_eq_prod_def less_prod_def
      split: if_splits)

lemma rank_sorted:
  assumes "byDate \<longrightarrow> datesParse xs"
  shows "sorted_wrt (rankedBefore byDate dm cm) (sortBy (rankCompare byDate dm cm) xs)"
proof -
  have eq: "sortBy (rankCompare byDate dm cm) xs = sort_key (rankKey byDate dm cm) xs"
    using assms by (intro sortBy_eq_sort_key ballI rankCompare_key) (auto simp: datesParse_def)
  have "sorted (map (rankKey byDate dm cm) (sort_key (rankKey byDate dm cm) xs))"
    by (rule sorted_sort_key)
  then have "sorted_wrt (\<lambda>a b. rankKey byDate dm cm a \<le> rankKey byDate dm cm b)
               (sort_key (rankKey byDate dm cm) xs)"
    by (simp add: sorted_map)
  then show ?thesis
    unfolding eq by (rule sorted_wrt_mono_rel[rotated]) (simp add: rankKey_le)
qed

lemma slice_sort_ranked:
  assumes "filteredRef < length h"
    and "byDate \<longrightarrow> datesParse (h ! filteredRef)"
  shows "ranked byDate dm cm h filteredRef
           (let (h1, r) = slice h filteredRef in (sortInPlace (rankCompare byDate dm cm) h1 r, r))"
  using assms rank_sorted[OF assms(2), of dm cm]
  by (simp add: ranked_def slice_def sortInPlace_def nth_append mset_sortBy)

text \<open>
  C4.  The ranked list, in the browser (\<open>prioritizedItems\<close>) and on the server
  (\<open>prioritized\<close>), is a rearrangement of the filtered candidates in which every
  candidate made for kids precedes every other one; among candidates with the same flag,
  those of a channel with at least 100000 subscribers (no channel data counting as 0)
  precede the others; and under the order \<^verbatim>\<open>date\<close>, among candidates tied on both, a
  later published one never stands after an earlier one.  The array of filtered
  candidates is left as it was.  Where the dates are compared, every \<^verbatim>\<open>publishedAt\<close> is
  taken to be missing or a timestamp that parses.
\<close>

theorem ranking_policy:
  assumes "filteredRef < length h"
    and "orderIsDate order \<longrightarrow> datesParse (h ! filteredRef)"
    and "(if sorder = [] then ''date'' else sorder) = ''date'' \<longrightarrow> datesParse (h ! filteredRef)"
  shows "ranked (orderIsDate order) detailsMap channelMap h filteredRef
           (prioritizedItems order detailsMap channelMap h filteredRef) \<and>
         ranked ((if sorder = [] then ''date'' else sorder) = ''date'') detailsMap channelMap h
           filteredRef (prioritized sorder detailsMap channelMap h filteredRef)"
  using slice_sort_ranked[OF assms(1,2)] slice_sort_ranked[OF assms(1,3)]
  unfolding prioritizedItems_def prioritized_def by blast

theorem ranking_policy_witness:
  "(0::nat) < length [[ex_item3, ex_item2, ex_item4, ex_item1]] \<and>
   datesParse ([[ex_item3, ex_item2, ex_item4, ex_item1]] ! 0) \<and>
   prioritizedItems (Some ''date'') ex_detailsMap ex_channelMap
       [[ex_item3, ex_item2, ex_item4, ex_item1]] 0
     = ([[ex_item3, ex_item2, ex_item4, ex_item1], [ex_item1, ex_item4, ex_item2, ex_item3]], 1) \<and>
   ranked (orderIsDate (Some ''date'')) ex_detailsMap ex_channelMap
       [[ex_item3, ex_item2, ex_item4, ex_item1]] 0
       (prioritizedItems (Some ''date'') ex_detailsMap ex_channelMap
          [[ex_item3, ex_item2, ex_item4, ex_item1]] 0)"
proof -
  have r: "(0::nat) < length [[ex_item3, ex_item2, ex_item4, ex_item1]]" by simp
  have d: "datesParse ([[ex_item3, ex_item2, ex_item4, ex_item1]] ! 0)"
    by (simp add: datesParse_def ex_item1_def ex_item2_def ex_item3_def ex_item4_def)
  have out: "prioritizedItems (Some ''date'') ex_detailsMap ex_channelMap
       [[ex_item3, ex_item2, ex_item4, ex_item1]] 0
     = ([[ex_item3, ex_item2, ex_item4, ex_item1], [ex_item1, ex_item4, ex_item2, ex_item3]], 1)"
    by code_simp
  from ranking_policy[OF r, of "Some ''date''" "''date''" ex_detailsMap ex_channelMap] d
  have "ranked (orderIsDate (Some ''date'')) ex_detailsMap ex_channelMap
       [[ex_item3, ex_item2, ex_item4, ex_item1]] 0
       (prioritizedItems (Some ''date'') ex_detailsMap ex_channelMap
          [[ex_item3, ex_item2, ex_item4, ex_item1]] 0)"
    by blast
  with r d out show ?thesis by blast
qed

section \<open>Category classifier: properties\<close>

lemma topViews_sort_key:
  assumes "\<forall>v\<in>set pool. viewCount v \<noteq> Some NonNumeric"
  shows "topViews pool = sort_key (\<lambda>v. - viewsOrZero v) pool"
  unfolding topViews_def
proof (rule sortBy_eq_sort_key, intro ballI)
  fix a b assume "a \<in> set pool" "b \<in> set pool"
  with assms have "viewCountNumber a = Some (viewsOrZero a)"
    "viewCountNumber b = Some (viewsOrZero b)"
    by (auto simp: viewCountNumber_def viewsOrZero_def Number_def
        split: option.splits numstr.splits)
  then show "(compareValue (\<lambda>a b. minus_num (viewCountNumber b) (viewCountNumber a)) a b \<le> 0)
       = (- viewsOrZero a \<le> - viewsOrZero b)"
    by (simp add: compareValue_def minus_num_def)
qed

text \<open>
  C9, as the code has it.  For a pool in which no \<^verbatim>\<open>viewCount\<close> is a non-numeric string,
  the bucket \<^verbatim>\<open>Top Most Views\<close> is the whole pool, sorted (stably) in descending order
  of the numeric view count, a missing \<^verbatim>\<open>viewCount\<close> counting as zero.
\<close>

theorem top_views_sorted:
  assumes "\<forall>v\<in>set pool. viewCount v \<noteq> Some NonNumeric"
  shows "topViews pool = sort_key (\<lambda>v. - viewsOrZero v) pool \<and>
         mset (topViews pool) = mset pool \<and>
         sorted_wrt (\<lambda>a b. viewsOrZero b \<le> viewsOrZero a) (topViews pool)"
proof -
  have eq: "topViews pool = sort_key (\<lambda>v. - viewsOrZero v) pool"
    by (rule topViews_sort_key[OF assms])
  have "sorted (map (\<lambda>v. - viewsOrZero v) (sort_key (\<lambda>v. - viewsOrZero v) pool))"
    by (rule sorted_sort_key)
  then have "sorted_wrt (\<lambda>a b. viewsOrZero b \<le> viewsOrZero a) (topViews pool)"
    by (simp add: sorted_map eq)
  with eq show ?thesis by (simp add: topViews_def mset_sortBy)
qed

theorem top_views_sorted_witness:
  "list_all (\<lambda>v. viewCount v \<noteq> Some NonNumeric) [ex_video_c, ex_video_d, ex_video_b] \<and>
   topViews [ex_video_c, ex_video_d, ex_video_b] = [ex_video_b, ex_video_d, ex_video_c] \<and>
   sorted_wrt (\<lambda>a b. viewsOrZero b \<le> viewsOrZero a) (topViews [ex_video_c, ex_video_d, ex_video_b])"
proof -
  have h: "\<forall>v\<in>set [ex_video_c, ex_video_d, ex_video_b]. viewCount v \<noteq> Some NonNumeric"
    by (simp add: ex_video_b_def ex_video_c_def ex_video_d_def ex_video_def)
  have out: "topViews [ex_video_c, ex_video_d, ex_video_b] = [ex_video_b, ex_video_d, ex_video_c]"
    by code_simp
  from top_views_sorted[OF h] h out show ?thesis
    by (simp add: list_all_iff)
qed

text \<open>
  C9, as stated, fails: a non-numeric \<^verbatim>\<open>viewCount\<close> makes \<^verbatim>\<open>Number\<close> yield NaN, the
  comparator yields NaN against every other item, and \<^verbatim>\<open>sort\<close> reads that as a tie.
  The item stays in front of one with ten views instead of being ordered as a zero.
\<close>

theorem top_views_non_numeric_counterexample:
  "topViews [ex_video, ex_video_b] = [ex_video, ex_video_b] \<and>
   viewsOrZero ex_video = 0 \<and> viewsOrZero ex_video_b = 10 \<and>
   \<not> sorted_wrt (\<lambda>a b. viewsOrZero b \<le> viewsOrZero a) (topViews [ex_video, ex_video_b])"
proof -
  have out: "topViews [ex_video, ex_video_b] = [ex_video, ex_video_b]"
    by code_simp
  have v: "viewsOrZero ex_video = 0" "viewsOrZero ex_video_b = 10"
    by (simp_all add: viewsOrZero_def ex_video_def ex_video_b_def)
  show ?thesis by (simp add: out v)
qed

section \<open>Dates: properties\<close>

lemma div_succ:
  fixes x c :: int assumes "0 < c"
  shows "(x + 1) div c = x div c + (if (x + 1) mod c = 0 then 1 else 0)"
proof (cases "(x + 1) mod c = 0")
  case True
  then obtain q where q: "x + 1 = c * q" by (auto simp: mod_eq_0_iff_dvd)
  have "x = c * (q - 1) + (c - 1)" using q by (simp add: algebra_simps)
  then have "x div c = q - 1" using assms int_div_pos_eq[of x c "q - 1" "c - 1"] by simp
  moreover have "(x + 1) div c = q" using q assms by simp
  ultimately show ?thesis using True by simp
next
  case False
  have "x mod c \<noteq> c - 1"
  proof
    assume "x mod c = c - 1"
    then have "(x + 1) mod c = (c - 1 + 1) mod c" by (metis mod_add_left_eq)
    then show False using False by simp
  qed
  moreover have "0 \<le> x mod c" "x mod c < c" using assms by auto
  ultimately have r: "0 \<le> x mod c + 1" "x mod c + 1 < c" by auto
  have "x + 1 = c * (x div c) + (x mod c + 1)" by simp
  then have "(x + 1) div c = x div c"
    using r int_div_pos_eq[of "x + 1" c "x div c" "x mod c + 1"] by simp
  then show ?thesis using False by simp
qed

lemma mod_shift:
  fixes y c k :: int assumes "c dvd k"
  shows "(y - k) mod c = 0 \<longleftrightarrow> y mod c = 0"
  using assms by (simp add: mod_eq_0_iff_dvd dvd_diff_left_iff)

lemma mod_coarser:
  fixes y c c' :: int assumes "c dvd c'" "y mod c' = 0"
  shows "y mod c = 0"
  using assms by (meson dvd_trans mod_eq_0_iff_dvd)

lemma DayFromYear_next: "DayFromYear (y + 1) = DayFromYear y + DaysInYear y"
proof -
  have d4: "(y + 1 - 1969) div 4 = (y - 1969) div 4 + (if y mod 4 = 0 then 1 else 0)"
    using div_succ[of 4 "y - 1969"] mod_shift[of 4 1968 y] by (simp add: algebra_simps)
  have d100: "(y + 1 - 1901) div 100 = (y - 1901) div 100 + (if y mod 100 = 0 then 1 else 0)"
    using div_succ[of 100 "y - 1901"] mod_shift[of 100 1900 y] by (simp add: algebra_simps)
  have d400: "(y + 1 - 1601) div 400 = (y - 1601) div 400 + (if y mod 400 = 0 then 1 else 0)"
    using div_succ[of 400 "y - 1601"] mod_shift[of 400 1600 y] by (simp add: algebra_simps)
  have m1: "y mod 400 = 0 \<Longrightarrow> y mod 100 = 0" by (rule mod_coarser[of 100 400]) simp_all
  have m2: "y mod 100 = 0 \<Longrightarrow> y mod 4 = 0" by (rule mod_coarser[of 4 100]) simp_all
  show ?thesis
    unfolding DayFromYear_def DaysInYear_def d4 d100 d400
    using m1 m2 by auto
qed


lemma firstDayOfMonth_step:
  assumes "1 \<le> mn" "mn \<le> 11" "L = 0 \<or> L = 1"
  shows "firstDayOfMonth (mn - 1) L < firstDayOfMonth mn L
         \<and> firstDayOfMonth mn L \<le> firstDayOfMonth (mn - 1) L + 31"
proof -
  from assms(1,2) have "mn = 1 \<or> mn = 2 \<or> mn = 3 \<or> mn = 4 \<or> mn = 5 \<or> mn = 6 \<or> mn = 7
      \<or> mn = 8 \<or> mn = 9 \<or> mn = 10 \<or> mn = 11" by arith
  with assms(3) show ?thesis
    by (auto simp: firstDayOfMonth_def)
qed

lemma DaysInYear_leap: "DaysInYear y = 365 + (if DaysInYear y = 366 then 1 else 0)"
  by (simp add: DaysInYear_def)

lemma prev_month_index:
  fixes m :: int
  shows "m mod 12 = 0 \<Longrightarrow> (m - 1) mod 12 = 11 \<and> (m - 1) div 12 = m div 12 - 1"
    and "m mod 12 \<noteq> 0 \<Longrightarrow> (m - 1) mod 12 = m mod 12 - 1 \<and> (m - 1) div 12 = m div 12"
proof -
  have m: "m = 12 * (m div 12) + m mod 12" by simp
  have r: "0 \<le> m mod 12" "m mod 12 < 12" by simp_all
  {
    assume z: "m mod 12 = 0"
    have e: "m - 1 = 12 * (m div 12 - 1) + 11" using m z by simp
    show "(m - 1) mod 12 = 11 \<and> (m - 1) div 12 = m div 12 - 1"
      using int_div_pos_eq[OF e] int_mod_pos_eq[OF e] by simp
  }
  {
    assume nz: "m mod 12 \<noteq> 0"
    have e: "m - 1 = 12 * (m div 12) + (m mod 12 - 1)" using m by simp
    have "0 \<le> m mod 12 - 1" "m mod 12 - 1 < 12" using r nz by simp_all
    then show "(m - 1) mod 12 = m mod 12 - 1 \<and> (m - 1) div 12 = m div 12"
      using int_div_pos_eq[OF e] int_mod_pos_eq[OF e] by simp
  }
qed

lemma MakeDay_prev_month:
  "MakeDay y (m - 1) dt < MakeDay y m dt \<and> MakeDay y m dt \<le> MakeDay y (m - 1) dt + 31"
proof (cases "m mod 12 = 0")
  case True
  define Y where "Y = y + m div 12 - 1"
  define L where "L = (if DaysInYear Y = 366 then 1 else 0 :: int)"
  have a: "(m - 1) mod 12 = 11" "y + (m - 1) div 12 = Y"
    using prev_month_index(1)[OF True] by (simp_all add: Y_def)
  have n: "DayFromYear (y + m div 12) = DayFromYear Y + 365 + L"
    using DayFromYear_next[of Y] DaysInYear_leap[of Y] by (simp add: Y_def L_def)
  have p: "MakeDay y (m - 1) dt = DayFromYear Y + (L + 334) + dt - 1"
    by (simp add: MakeDay_def a firstDayOfMonth_def L_def)
  have q: "MakeDay y m dt = DayFromYear Y + 365 + L + dt - 1"
    by (simp add: MakeDay_def True firstDayOfMonth_def n)
  show ?thesis unfolding p q by simp
next
  case False
  have a: "(m - 1) mod 12 = m mod 12 - 1" "(m - 1) div 12 = m div 12"
    using prev_month_index(2)[OF False] by simp_all
  have r: "1 \<le> m mod 12" "m mod 12 \<le> 11"
    using False pos_mod_sign[of 12 m] pos_mod_bound[of 12 m] by simp_all
  define L where "L = (if DaysInYear (y + m div 12) = 366 then 1 else 0 :: int)"
  have "L = 0 \<or> L = 1" by (simp add: L_def)
  from firstDayOfMonth_step[OF r this]
  show ?thesis
    by (simp add: MakeDay_def Let_def a L_def)
qed

lemma MakeDay_months_back:
  "MakeDay y (m - (1 + int n)) dt < MakeDay y m dt
   \<and> MakeDay y m dt \<le> MakeDay y (m - (1 + int n)) dt + 31 * (1 + int n)"
proof (induction n)
  case 0
  show ?case using MakeDay_prev_month[of y m dt] by simp
next
  case (Suc n)
  have "m - (1 + int (Suc n)) = (m - (1 + int n)) - 1" by simp
  then show ?case
    using MakeDay_prev_month[of y "m - (1 + int n)" dt] Suc by (simp add: algebra_simps)
qed

lemma MonthFromTime_range: "0 \<le> MonthFromTime t \<and> MonthFromTime t \<le> 11"
  by (simp add: MonthFromTime_def Let_def)

lemma MakeDay_of_time:
  "MakeDay (YearFromTime t) (MonthFromTime t) (DateFromTime t) = Day t"
proof -
  have "MonthFromTime t div 12 = 0" "MonthFromTime t mod 12 = MonthFromTime t"
    using MonthFromTime_range[of t] by auto
  then show ?thesis
    by (simp add: MakeDay_def Let_def DateFromTime_def DayWithinYear_def InLeapYear_def)
qed

lemma setMonth_back_raw:
  fixes tza t k u :: int
  assumes "1 \<le> k"
    and u_def: "u = UTC tza (MakeDate (MakeDay (YearFromTime (LocalTime tza t))
                  (MonthFromTime (LocalTime tza t) - k) (DateFromTime (LocalTime tza t)))
                  (TimeWithinDay (LocalTime tza t)))"
  shows "u < t" and "t - 31 * k * msPerDay \<le> u"
proof -
  define lt where "lt = LocalTime tza t"
  define n where "n = nat (k - 1)"
  have k: "k = 1 + int n" using assms(1) by (simp add: n_def)
  define md where "md = MakeDay (YearFromTime lt) (MonthFromTime lt - k) (DateFromTime lt)"
  have b: "md < Day lt" "Day lt \<le> md + 31 * k"
    using MakeDay_months_back[of "YearFromTime lt" "MonthFromTime lt" n "DateFromTime lt"]
    unfolding k md_def MakeDay_of_time by auto
  have lt: "lt = Day lt * 86400000 + TimeWithinDay lt"
    by (simp add: Day_def TimeWithinDay_def msPerDay_def)
  have u: "u + tza = md * 86400000 + TimeWithinDay lt"
    by (simp add: u_def UTC_def MakeDate_def md_def lt_def msPerDay_def)
  from b(1) have "md * 86400000 + 86400000 \<le> Day lt * 86400000" by simp
  with lt u show "u < t" by (simp add: LocalTime_def lt_def)
  from b(2) have "Day lt * 86400000 \<le> md * 86400000 + 31 * k * 86400000" by simp
  with lt u show "t - 31 * k * msPerDay \<le> u" by (simp add: LocalTime_def lt_def msPerDay_def)
qed

text \<open>\<open>YearFromTime\<close> is the year that the language definition asks for.\<close>

lemma yearUp_spec:
  "DayFromYear y \<le> d \<Longrightarrow> b = (DayFromYear (y + 1) \<le> d) \<Longrightarrow>
     DayFromYear (yearUp b y d) \<le> d \<and> d < DayFromYear (yearUp b y d + 1)"
proof (induction b y d rule: yearUp.induct)
  case (1 y d)
  then show ?case by simp
next
  case (2 y d)
  from 2(3) have n: "DayFromYear (y + 1) \<le> d" by simp
  have "DayFromYear (y + 1 + 1) = DayFromYear (y + 2)" by (simp add: ac_simps)
  with 2(1)[OF n] show ?case by simp
qed

lemma DaysInYear_bounds: "365 \<le> DaysInYear y \<and> DaysInYear y \<le> 366"
  by (simp add: DaysInYear_def)

lemma DayFromYear_1970: "DayFromYear 1970 = 0"
  by (simp add: DayFromYear_def)

lemma DayFromYear_after: "DayFromYear (1970 + int n) \<le> 366 * int n"
proof (induction n)
  case 0 show ?case by (simp add: DayFromYear_1970)
next
  case (Suc n)
  have "DayFromYear (1970 + int (Suc n)) = DayFromYear (1970 + int n) + DaysInYear (1970 + int n)"
    using DayFromYear_next[of "1970 + int n"] by (simp add: algebra_simps)
  with Suc DaysInYear_bounds[of "1970 + int n"] show ?case by simp
qed

lemma DayFromYear_before: "DayFromYear (1970 - int n) \<le> - 365 * int n"
proof (induction n)
  case 0 show ?case by (simp add: DayFromYear_1970)
next
  case (Suc n)
  have "DayFromYear (1970 - int n) = DayFromYear (1970 - int (Suc n)) + DaysInYear (1970 - int (Suc n))"
    using DayFromYear_next[of "1970 - int (Suc n)"] by (simp add: algebra_simps)
  with Suc DaysInYear_bounds[of "1970 - int (Suc n)"] show ?case by simp
qed

lemma year_start: "DayFromYear (1970 + (if 0 \<le> d then d div 366 else d div 365)) \<le> d"
proof (cases "0 \<le> d")
  case True
  define n where "n = nat (d div 366)"
  have n: "d div 366 = int n" using True by (simp add: n_def)
  have "366 * (d div 366) \<le> d" using True by (simp add: algebra_simps) 
  with DayFromYear_after[of n] True show ?thesis by (simp add: n)
next
  case False
  define n where "n = nat (- (d div 365))"
  have "d div 365 < 0" using False by (simp add: div_neg_pos_less0)
  then have n: "d div 365 = - int n" by (simp add: n_def)
  have "365 * (d div 365) \<le> d" by (simp add: algebra_simps)
  with DayFromYear_before[of n] False show ?thesis by (simp add: n)
qed

lemma YearFromTime_spec:
  "DayFromYear (YearFromTime t) \<le> Day t \<and> Day t < DayFromYear (YearFromTime t + 1)"
  unfolding YearFromTime_def Let_def by (rule yearUp_spec[OF year_start refl])

section \<open>Date windows: properties\<close>

lemma setMonth_back:
  assumes "1 \<le> k"
  shows "setMonth tza (Some t) (minus_num (getMonth tza (Some t)) (Some k)) = Some u \<Longrightarrow> u < t"
    and "t \<le> maxTime \<Longrightarrow> - maxTime \<le> t - 31 * k * msPerDay \<Longrightarrow>
         \<exists>u. setMonth tza (Some t) (minus_num (getMonth tza (Some t)) (Some k)) = Some u"
proof -
  define u' where "u' = UTC tza (MakeDate (MakeDay (YearFromTime (LocalTime tza t))
                  (MonthFromTime (LocalTime tza t) - k) (DateFromTime (LocalTime tza t)))
                  (TimeWithinDay (LocalTime tza t)))"
  have s: "setMonth tza (Some t) (minus_num (getMonth tza (Some t)) (Some k)) = TimeClip u'"
    by (simp add: setMonth_def getMonth_def minus_num_def Let_def u'_def)
  note b = setMonth_back_raw[OF assms u'_def]
  show "setMonth tza (Some t) (minus_num (getMonth tza (Some t)) (Some k)) = Some u \<Longrightarrow> u < t"
    using b(1) unfolding s by (auto simp: TimeClip_def split: if_splits)
  show "t \<le> maxTime \<Longrightarrow> - maxTime \<le> t - 31 * k * msPerDay \<Longrightarrow>
         \<exists>u. setMonth tza (Some t) (minus_num (getMonth tza (Some t)) (Some k)) = Some u"
    using b unfolding s by (auto simp: TimeClip_def)
qed

lemma next_window_step:
  assumes "1 \<le> k" "getNextWindowByMonths tza w k = Inr w'"
  shows "\<exists>a u. w_publishedAfter w = Parses a \<and> \<bar>a\<bar> \<le> maxTime \<and> u < a \<and>
           w' = \<lparr>w_publishedAfter = Parses u, w_publishedBefore = Parses a\<rparr>"
proof -
  from assms(2) obtain a where a: "w_publishedAfter w = Parses a" "\<bar>a\<bar> \<le> maxTime"
    by (cases "w_publishedAfter w")
       (auto simp: getNextWindowByMonths_def newDate_def setMonth_def toISOString_def getMonth_def
          minus_num_def TimeClip_def Let_def split: if_splits)
  then have nd: "newDate (w_publishedAfter w) = Some a"
    by (simp add: newDate_def TimeClip_def)
  from assms(2) obtain u where
    u: "setMonth tza (Some a) (minus_num (getMonth tza (Some a)) (Some k)) = Some u"
    and w': "w' = \<lparr>w_publishedAfter = Parses u, w_publishedBefore = Parses a\<rparr>"
    unfolding getNextWindowByMonths_def nd Let_def
    by (auto simp: toISOString_def split: option.splits)
  from setMonth_back(1)[OF assms(1) u] a w' show ?thesis by blast
qed

lemma next_window_total:
  assumes "1 \<le> k" "w_publishedAfter w = Parses a" "a \<le> maxTime" "- maxTime \<le> a - 31 * k * msPerDay"
  shows "\<exists>w'. getNextWindowByMonths tza w k = Inr w'"
proof -
  have "0 \<le> 31 * k * msPerDay" using assms(1) by (simp add: msPerDay_def)
  with assms(4) have "- maxTime \<le> a" by linarith
  with assms(3) have "\<bar>a\<bar> \<le> maxTime" by linarith
  with assms(2) have nd: "newDate (w_publishedAfter w) = Some a"
    by (simp add: newDate_def TimeClip_def)
  from setMonth_back(2)[OF assms(1,3,4)] obtain u where
    "setMonth tza (Some a) (minus_num (getMonth tza (Some a)) (Some k)) = Some u" by blast
  then show ?thesis
    unfolding getNextWindowByMonths_def nd Let_def by (simp add: toISOString_def)
qed

lemma atOrBefore_trans_valid:
  "atOrBefore u v \<Longrightarrow> validWindow v \<Longrightarrow> atOrBefore v x \<Longrightarrow> atOrBefore u x"
  by (auto simp: atOrBefore_def validWindow_def split: datestr.splits)

lemma next_windows_chain:
  assumes "1 \<le> k"
  shows "nextWindows tza k n w = Inr ws \<Longrightarrow> length ws = n \<and> windowChain w ws"
proof (induction n arbitrary: w ws)
  case 0
  then show ?case by (simp add: windowChain_def)
next
  case (Suc n)
  from Suc.prems obtain w' ws' where
    s: "getNextWindowByMonths tza w k = Inr w'" and r: "nextWindows tza k n w' = Inr ws'"
    and ws: "ws = w' # ws'"
    by (auto split: sum.splits)
  from next_window_step[OF assms s] obtain a u where
    a: "w_publishedAfter w = Parses a" "u < a"
       "w' = \<lparr>w_publishedAfter = Parses u, w_publishedBefore = Parses a\<rparr>" by blast
  then have v: "validWindow w'" and adj: "w_publishedBefore w' = w_publishedAfter w"
    and ab: "atOrBefore w w'"
    by (simp_all add: validWindow_def atOrBefore_def)
  from Suc.IH[OF r] have ih: "length ws' = n" "windowChain w' ws'" by simp_all
  have "\<forall>x\<in>set ws'. atOrBefore w x"
    using ih(2) atOrBefore_trans_valid[OF ab v] by (auto simp: windowChain_def)
  with ih v adj ab show ?case
    by (simp add: ws windowChain_def)
qed

lemma next_windows_total:
  assumes "1 \<le> k"
  shows "staysInRange w k n \<Longrightarrow> \<exists>ws. nextWindows tza k n w = Inr ws"
proof (induction n arbitrary: w)
  case 0
  then show ?case by simp
next
  case (Suc n)
  from Suc.prems obtain a where a: "w_publishedAfter w = Parses a" "a \<le> maxTime"
    "- maxTime \<le> a - int (Suc n) * (31 * k * msPerDay)"
    by (auto simp: staysInRange_def split: datestr.splits)
  have p: "0 \<le> 31 * k * msPerDay" using assms by (simp add: msPerDay_def)
  then have "0 \<le> int n * (31 * k * msPerDay)" by simp
  with a(3) have lo: "- maxTime \<le> a - 31 * k * msPerDay" by (simp add: algebra_simps)
  from next_window_total[OF assms a(1,2) lo] obtain w' where
    s: "getNextWindowByMonths tza w k = Inr w'" by blast
  from next_window_step[OF assms s] a(1) obtain u where
    u: "u < a" "w' = \<lparr>w_publishedAfter = Parses u, w_publishedBefore = Parses a\<rparr>" by auto
  have ulo: "a - 31 * k * msPerDay \<le> u"
  proof -
    from lo p have "- maxTime \<le> a" by linarith
    with a(2) have "\<bar>a\<bar> \<le> maxTime" by linarith
    with a(1) have nd: "newDate (w_publishedAfter w) = Some a"
      by (simp add: newDate_def TimeClip_def)
    from s u(2) have "setMonth tza (Some a) (minus_num (getMonth tza (Some a)) (Some k)) = Some u"
      unfolding getNextWindowByMonths_def nd Let_def
      by (auto simp: toISOString_def split: option.splits)
    then show ?thesis
      using setMonth_back_raw(2)[OF assms refl, of a tza]
      by (auto simp: setMonth_def getMonth_def minus_num_def Let_def TimeClip_def split: if_splits)
  qed
  have "staysInRange w' k n"
    using u a(2,3) ulo by (simp add: staysInRange_def algebra_simps)
  from Suc.IH[OF this] s show ?case by auto
qed

text \<open>Evaluation of the calendar functions at given time values.\<close>

lemma setMonth_eval:
  assumes "YearFromTime (LocalTime tza t) = y" "MonthFromTime (LocalTime tza t) = m"
    "DateFromTime (LocalTime tza t) = dt"
  shows "setMonth tza (Some t) (minus_num (getMonth tza (Some t)) (Some k))
         = TimeClip (UTC tza (MakeDate (MakeDay y (m - k) dt) (TimeWithinDay (LocalTime tza t))))"
  using assms by (simp add: setMonth_def getMonth_def minus_num_def Let_def)

lemma next_window_example1: "getNextWindowByMonths 0 ex_window 1 = Inr ex_window1"
  by code_simp

lemma next_window_example2: "getNextWindowByMonths 0 ex_window1 1 = Inr ex_window2"
  by code_simp

text \<open>
  C5.  From a window with \<^verbatim>\<open>publishedAfter\<close> strictly before \<^verbatim>\<open>publishedBefore\<close> and
  with \<open>monthsBack\<close> at least 1, repeated application of \<open>getNextWindowByMonths\<close>
  returns windows that are each valid half-open intervals, each with its
  \<^verbatim>\<open>publishedBefore\<close> equal to the \<^verbatim>\<open>publishedAfter\<close> of the window before it, and each
  lying at or before the start of every earlier window (so strictly decreasing and
  pairwise without overlap).  The \<open>n\<close> applications do return \<open>n\<close> windows as long
  as the dates stay in the range of \<^verbatim>\<open>Date\<close>; where they leave it, \<^verbatim>\<open>toISOString\<close>
  throws and no window is produced.
\<close>

theorem window_monotonicity:
  assumes "validWindow w" and "1 \<le> monthsBack"
  shows "(staysInRange w monthsBack n \<longrightarrow> (\<exists>ws. nextWindows tza monthsBack n w = Inr ws)) \<and>
         (\<forall>ws. nextWindows tza monthsBack n w = Inr ws \<longrightarrow> length ws = n \<and> windowChain w ws)"
  using next_windows_total[OF assms(2)] next_windows_chain[OF assms(2)] by blast

theorem window_monotonicity_witness:
  "validWindow ex_window \<and> (1::int) \<le> 1 \<and> staysInRange ex_window 1 2 \<and>
   nextWindows 0 1 2 ex_window = Inr [ex_window1, ex_window2] \<and>
   windowChain ex_window [ex_window1, ex_window2]"
proof -
  have v: "validWindow ex_window" by (simp add: validWindow_def ex_window_def)
  have k: "(1::int) \<le> 1" by simp
  have r: "staysInRange ex_window 1 2"
    by (simp add: staysInRange_def ex_window_def maxTime_def msPerDay_def)
  have n: "nextWindows 0 1 2 ex_window = Inr [ex_window1, ex_window2]"
    by (simp add: numeral_2_eq_2 next_window_example1 next_window_example2)
  from window_monotonicity[OF v k, of 2 0] n have "windowChain ex_window [ex_window1, ex_window2]"
    by blast
  with v k r n show ?thesis by blast
qed

section \<open>Server date normalisation: properties\<close>

lemma searchDateNormalization_repairs:
  assumes "newDate a = Some ta" and "newDate b = Some tb" and "\<bar>nowT\<bar> \<le> maxTime"
    and "min tb nowT \<le> ta \<longrightarrow> - maxTime \<le> min tb nowT - 1000"
  shows "searchDateNormalization nowT (Some a) (Some b) =
           Inr (Some (Parses (if min tb nowT \<le> ta then min tb nowT - 1000 else ta)),
                Some (Parses (min tb nowT)))"
proof -
  from assms(1,2) have ab: "a = Parses ta" "b = Parses tb" "\<bar>ta\<bar> \<le> maxTime" "\<bar>tb\<bar> \<le> maxTime"
    by (auto simp: newDate_def TimeClip_def split: datestr.splits if_splits)
  have pa: "parseIso (Some a) = Some (Some ta)" "parseIso (Some b) = Some (Some tb)"
    using assms(1,2) by (simp_all add: parseIso_def)
  have now: "TimeClip nowT = Some nowT" using assms(3) by (simp add: TimeClip_def)
  have clip: "\<And>x. x \<le> ta \<Longrightarrow> - maxTime \<le> x - 1000 \<Longrightarrow> TimeClip (x - 1000) = Some (x - 1000)"
    using ab(3) by (simp add: TimeClip_def)
  show ?thesis
  proof (cases "nowT < tb")
    case late: True
    then have m: "min tb nowT = nowT" by simp
    show ?thesis
    proof (cases "nowT \<le> ta")
      case True
      with assms(4) clip[of nowT] have "TimeClip (nowT - 1000) = Some (nowT - 1000)"
        by (simp add: m)
      with late True show ?thesis
        by (simp add: searchDateNormalization_def pa now Let_def isoOrEmpty_def toISOString_def m)
    next
      case False
      with late show ?thesis
        by (simp add: searchDateNormalization_def pa now Let_def isoOrEmpty_def toISOString_def m)
    qed
  next
    case early: False
    then have m: "min tb nowT = tb" by simp
    show ?thesis
    proof (cases "tb \<le> ta")
      case True
      with assms(4) clip[of tb] have "TimeClip (tb - 1000) = Some (tb - 1000)"
        by (simp add: m)
      with early True show ?thesis
        by (simp add: searchDateNormalization_def pa now Let_def isoOrEmpty_def toISOString_def m)
    next
      case False
      with early show ?thesis
        by (simp add: searchDateNormalization_def pa now Let_def isoOrEmpty_def toISOString_def m)
    qed
  qed
qed

text \<open>
  C7, as the code has it.  With \<^verbatim>\<open>publishedAfter\<close> and \<^verbatim>\<open>publishedBefore\<close> that parse,
  \<^verbatim>\<open>publishedBefore\<close> is clamped to the current time when it lies in the future, and
  when \<^verbatim>\<open>publishedAfter\<close> is then not before it, \<^verbatim>\<open>publishedAfter\<close> becomes one second
  before \<^verbatim>\<open>publishedBefore\<close>; the normalised window has \<^verbatim>\<open>publishedAfter\<close> strictly
  before \<^verbatim>\<open>publishedBefore\<close> and the normalisation does not fail.  This needs that,
  where the repair applies, one second before \<^verbatim>\<open>publishedBefore\<close> is still a time value
  that a \<^verbatim>\<open>Date\<close> can hold.
\<close>

theorem server_date_normalization:
  assumes "newDate a = Some ta" and "newDate b = Some tb" and "\<bar>nowT\<bar> \<le> maxTime"
    and "min tb nowT \<le> ta \<longrightarrow> - maxTime \<le> min tb nowT - 1000"
  shows "\<exists>a' b'. searchDateNormalization nowT (Some a) (Some b)
                   = Inr (Some (Parses a'), Some (Parses b')) \<and>
           b' = min tb nowT \<and> a' = (if b' \<le> ta then b' - 1000 else ta) \<and> a' < b'"
  using searchDateNormalization_repairs[OF assms] by auto

theorem server_date_normalization_witness:
  "newDate (Parses 1893456000000) = Some 1893456000000 \<and>
   newDate (Parses 1700000000000) = Some 1700000000000 \<and>
   \<bar>1600000000000 :: int\<bar> \<le> maxTime \<and>
   searchDateNormalization 1600000000000 (Some (Parses 1893456000000)) (Some (Parses 1700000000000))
     = Inr (Some (Parses 1599999999000), Some (Parses 1600000000000))"
proof -
  have a: "newDate (Parses 1893456000000) = Some 1893456000000"
    and b: "newDate (Parses 1700000000000) = Some 1700000000000"
    and n: "\<bar>1600000000000 :: int\<bar> \<le> maxTime"
    by (simp_all add: newDate_def TimeClip_def maxTime_def)
  have r: "min 1700000000000 1600000000000 \<le> (1893456000000 :: int)
           \<longrightarrow> - maxTime \<le> min 1700000000000 (1600000000000 :: int) - 1000"
    by (simp add: maxTime_def)
  from server_date_normalization[OF a b n r] a b n show ?thesis
    by auto
qed

text \<open>
  C7, as stated, fails at the lower end of the range of \<^verbatim>\<open>Date\<close>: with both dates at
  the earliest time value (\<^verbatim>\<open>-271821-04-20T00:00:00.000Z\<close>), the repair computes
  \<^verbatim>\<open>new Date(dBefore.getTime() - 1000)\<close>, an invalid date, and \<^verbatim>\<open>toISOString\<close> throws;
  the handler answers with an error instead of a normalised window.
\<close>

theorem server_date_normalization_counterexample:
  "newDate (Parses (- 8640000000000000)) = Some (- 8640000000000000) \<and>
   searchDateNormalization 0 (Some (Parses (- 8640000000000000)))
       (Some (Parses (- 8640000000000000)))
     = Inl RangeError"
  by (simp add: searchDateNormalization_def parseIso_def newDate_def TimeClip_def Let_def
        isoOrEmpty_def toISOString_def maxTime_def)

section \<open>Search client: properties\<close>

lemma collapseSpaces_empty: "collapseSpaces False s = [] \<longleftrightarrow> s = []"
  by (cases s) auto

lemma trim_empty: "trim s = [] \<longleftrightarrow> list_all isWhiteSpace s"
proof
  assume "list_all isWhiteSpace s"
  then have d: "dropWhile isWhiteSpace s = []" by (simp add: list_all_iff)
  show "trim s = []" unfolding trim_def d by simp
next
  assume t: "trim s = []"
  show "list_all isWhiteSpace s"
  proof (rule ccontr)
    assume "\<not> list_all isWhiteSpace s"
    then have ne: "dropWhile isWhiteSpace s \<noteq> []"
      by (simp add: list_all_iff)
    then have "\<not> isWhiteSpace (hd (dropWhile isWhiteSpace s))" by (rule hd_dropWhile)
    moreover have "hd (dropWhile isWhiteSpace s) \<in> set (rev (dropWhile isWhiteSpace s))"
      using ne by simp
    ultimately have "dropWhile isWhiteSpace (rev (dropWhile isWhiteSpace s)) \<noteq> []"
      by auto
    with t show False by (simp add: trim_def)
  qed
qed

lemma sanitizeQuery_empty: "sanitizeQuery q = [] \<longleftrightarrow> list_all isWhiteSpace q"
  by (simp add: sanitizeQuery_def collapseSpaces_empty trim_empty)

lemma invalid_cacheKeyFor:
  assumes "invalidQuery env now q opts"
  shows "cacheKeyFor env now q pageToken opts = Inl (Error ''Query is empty'') \<or>
         cacheKeyFor env now q pageToken opts = Inl (Error ''publishedAfter must be before publishedBefore'')"
proof (cases "list_all isWhiteSpace q")
  case True
  then show ?thesis by (simp add: cacheKeyFor_def sanitizeQuery_empty)
next
  case False
  with assms obtain def afterIso beforeIso where
    d: "getDefaultDateWindow (env_tza env) now = Inr def"
    and w: "windowOrDefault def opts = (afterIso, beforeIso)"
    and inv: "\<not> less_num (newDate afterIso) (newDate beforeIso)"
    by (auto simp: invalidQuery_def split: sum.splits prod.splits)
  from False have "sanitizeQuery q \<noteq> []" by (simp add: sanitizeQuery_empty)
  then show ?thesis
    using d w inv by (simp add: cacheKeyFor_def normalizeSearchOptions_def Let_def)
qed

lemma startOrShare_cases:
  "startOrShare env now k st = (out, st1) \<Longrightarrow>
     (\<exists>n. out = Pending n) \<and> inFlightSearch st1 k \<noteq> None \<and> searchCache st1 = searchCache st"
  by (auto simp: startOrShare_def Let_def split: option.splits prod.splits)

lemma settle_success:
  assumes "settleSearch env up doneAt k st = (Some (m, Inr r), st2)"
  shows "searchCache st2 k = Some r"
  using assms
  by (auto simp: settleSearch_def Let_def split: option.splits prod.splits sum.splits if_splits)

lemma fetchSearch_success_cached:
  assumes "fetchSearch env up now doneAt q pageToken opts st = (Inr r, st1)"
    and "cacheKeyFor env now q pageToken opts = Inr k"
  shows "\<exists>c. searchCache st1 k = Some c \<and> r_items c = r_items r \<and> c\<lparr>r_cached := Some True\<rparr> = r\<lparr>r_cached := Some True\<rparr>"
proof (cases "searchCache st k")
  case (Some c)
  with assms show ?thesis
    by (auto simp: fetchSearch_def fetchSearchStart_def)
next
  case None
  show ?thesis
  proof (cases "sessionLookup env now k st")
    case (Pair out sta)
    show ?thesis
    proof (cases out)
      case (Rejected e)
      with assms None Pair show ?thesis
        by (auto simp: fetchSearch_def fetchSearchStart_def)
    next
      case (Resolved x)
      with Pair have "searchCache sta k = Some x"
        by (auto simp: sessionLookup_def Let_def split: option.splits if_splits prod.splits
            dest: startOrShare_cases)
      with assms None Pair Resolved show ?thesis
        by (auto simp: fetchSearch_def fetchSearchStart_def)
    next
      case (Pending n)
      with assms None Pair obtain m where
        "settleSearch env up doneAt k sta = (Some (m, Inr r), st1)"
        by (auto simp: fetchSearch_def fetchSearchStart_def split: prod.splits option.splits)
      from settle_success[OF this] show ?thesis by simp
    qed
  qed
qed

lemma default_window_total:
  assumes "now \<le> maxTime" "- maxTime \<le> now - 31 * msPerDay"
  shows "\<exists>def. getDefaultDateWindow tza now = Inr def"
proof -
  have "(0::int) \<le> 31 * msPerDay" by (simp add: msPerDay_def)
  with assms have c: "TimeClip now = Some now" by (simp add: TimeClip_def)
  from setMonth_back(2)[of 1 now tza] assms obtain u where
    "setMonth tza (Some now) (minus_num (getMonth tza (Some now)) (Some 1)) = Some u" by auto
  then show ?thesis
    by (simp add: getDefaultDateWindow_def c toISOString_def)
qed

lemma cacheKeyFor_explicit_window:
  assumes "o_publishedAfter opts = Some (Parses a)" "o_publishedBefore opts = Some (Parses b)"
    and "\<bar>a\<bar> \<le> maxTime" "\<bar>b\<bar> \<le> maxTime" "a < b"
    and "\<not> list_all isWhiteSpace q"
    and "now \<le> maxTime" "- maxTime \<le> now - 31 * msPerDay"
  shows "cacheKeyFor env now q pageToken opts
         = Inr (sanitizeQuery q, orEmpty pageToken, opts, env_youtubeKey env \<noteq> [])"
proof -
  from default_window_total[OF assms(7,8)] obtain def where
    d: "getDefaultDateWindow (env_tza env) now = Inr def" by blast
  have w: "windowOrDefault def opts = (Parses a, Parses b)"
    using assms(1-4) by (simp add: windowOrDefault_def toIsoUTC_def newDate_def TimeClip_def)
  have o: "opts\<lparr>o_publishedAfter := Some (Parses a), o_publishedBefore := Some (Parses b)\<rparr> = opts"
    using assms(1,2) by simp
  show ?thesis
    using assms(3-6)
    by (simp add: cacheKeyFor_def sanitizeQuery_empty normalizeSearchOptions_def d w o
        newDate_def TimeClip_def less_num_def makeSearchKey_def)
qed

text \<open>Evaluation of the example call.\<close>

lemma setMonth_example:
  "setMonth 0 (Some 1711843200000) (minus_num (getMonth 0 (Some 1711843200000)) (Some 1))
        = Some 1709337600000"
  by code_simp

lemma default_window_example: "getDefaultDateWindow 0 ex_now = Inr ex_window1"
  by (simp add: getDefaultDateWindow_def ex_now_def TimeClip_def maxTime_def setMonth_example
      toISOString_def ex_window1_def)

lemma sanitize_example: "sanitizeQuery '' ai   music '' = ''ai music''"
  by (simp add: sanitizeQuery_def trim_def isWhiteSpace_def)

lemma key_example:
  "cacheKeyFor ex_env ex_now '' ai   music '' None ex_opts = Inr (''ai music'', [], ex_opts, False)"
  by (simp add: cacheKeyFor_def sanitize_example ex_env_def default_window_example
      normalizeSearchOptions_def windowOrDefault_def toIsoUTC_def newDate_def TimeClip_def
      maxTime_def less_num_def ex_opts_def ex_window1_def makeSearchKey_def orEmpty_def)

lemma filter_example: "defensiveFilter [ex_video_b] = [ex_video_b]"
  by code_simp

lemma first_example:
  "fst (fetchSearch ex_env ex_up ex_now (ex_now + 350) '' ai   music '' None ex_opts ex_state)
     = Inr ex_response"
  unfolding fetchSearch_def fetchSearchStart_def key_example
  by (simp add: sessionLookup_def startOrShare_def settleSearch_def proxyResult_def
      ex_state_def ex_env_def ex_up_def ex_response_def filter_example Let_def)

text \<open>
  C6.  A call of \<open>fetchSearch\<close> whose query text is empty or all white space, or
  whose normalised window does not have \<^verbatim>\<open>publishedAfter\<close> strictly before
  \<^verbatim>\<open>publishedBefore\<close>, fails with an error and leaves the whole state as it was: no
  request has been sent, and neither a cache nor a seen-set has changed.  The window is
  not corrected.
\<close>

theorem invalid_query_rejected:
  assumes "invalidQuery env now q opts"
  shows "\<exists>e. fetchSearchStart env now q pageToken opts st = (Rejected e, st) \<and>
             fetchSearch env up now doneAt q pageToken opts st = (Inl e, st) \<and>
             (e = Error ''Query is empty'' \<or>
              e = Error ''publishedAfter must be before publishedBefore'')"
  using invalid_cacheKeyFor[OF assms, of pageToken]
  by (auto simp: fetchSearchStart_def fetchSearch_def)

theorem invalid_query_rejected_witness:
  "invalidQuery ex_env ex_now ''ai music'' ex_opts_inverted \<and>
   fetchSearch ex_env ex_up ex_now (ex_now + 350) ''ai music'' None ex_opts_inverted ex_state
     = (Inl (Error ''publishedAfter must be before publishedBefore''), ex_state)"
proof -
  have w: "windowOrDefault ex_window1 ex_opts_inverted = (Parses 2000, Parses 1000)"
    by (simp add: windowOrDefault_def ex_opts_inverted_def ex_opts_def toIsoUTC_def newDate_def
        TimeClip_def maxTime_def)
  have inv: "invalidQuery ex_env ex_now ''ai music'' ex_opts_inverted"
    unfolding invalidQuery_def
    by (simp add: ex_env_def default_window_example w newDate_def TimeClip_def maxTime_def
        less_num_def)
  have "sanitizeQuery ''ai music'' = ''ai music''"
    by (simp add: sanitizeQuery_def trim_def isWhiteSpace_def)
  then have k: "cacheKeyFor ex_env ex_now ''ai music'' None ex_opts_inverted
      = Inl (Error ''publishedAfter must be before publishedBefore'')"
    by (simp add: cacheKeyFor_def normalizeSearchOptions_def ex_env_def default_window_example w
        newDate_def TimeClip_def maxTime_def less_num_def)
  then have s: "fetchSearchStart ex_env ex_now ''ai music'' None ex_opts_inverted ex_state
      = (Rejected (Error ''publishedAfter must be before publishedBefore''), ex_state)"
    by (simp add: fetchSearchStart_def)
  from invalid_query_rejected[OF inv, of None ex_state ex_up "ex_now + 350"] s
  have "fetchSearch ex_env ex_up ex_now (ex_now + 350) ''ai music'' None ex_opts_inverted ex_state
     = (Inl (Error ''publishedAfter must be before publishedBefore''), ex_state)"
    by auto
  with inv show ?thesis by blast
qed

text \<open>
  C3.  After a call of \<open>fetchSearch\<close> that returned a response, a second call with
  the same cache key returns the stored response marked \<^verbatim>\<open>cached = true\<close>, with the
  items of the first response, and leaves the state as it was (so it sends no request),
  whatever the network would answer.  This holds at any later time, within the 15
  minutes in particular: the in-memory tier does not expire.
\<close>

theorem repeated_search_cached:
  assumes first: "fetchSearch env1 up1 now1 doneAt1 q1 pageToken1 opts1 st = (Inr r1, st1)"
    and key1: "cacheKeyFor env1 now1 q1 pageToken1 opts1 = Inr k"
    and key2: "cacheKeyFor env2 now2 q2 pageToken2 opts2 = Inr k"
  shows "\<exists>r2. fetchSearchStart env2 now2 q2 pageToken2 opts2 st1 = (Resolved r2, st1) \<and>
              fetchSearch env2 up2 now2 doneAt2 q2 pageToken2 opts2 st1 = (Inr r2, st1) \<and>
              r_cached r2 = Some True \<and> r_items r2 = r_items r1 \<and>
              r2 = r1\<lparr>r_cached := Some True\<rparr>"
proof -
  from fetchSearch_success_cached[OF first key1] obtain c where
    c: "searchCache st1 k = Some c" "c\<lparr>r_cached := Some True\<rparr> = r1\<lparr>r_cached := Some True\<rparr>" by blast
  then show ?thesis
    using key2 by (simp add: fetchSearchStart_def fetchSearch_def)
qed

theorem repeated_search_cached_witness:
  "fst (fetchSearch ex_env ex_up ex_now (ex_now + 350) '' ai   music '' None ex_opts ex_state)
     = Inr ex_response \<and>
   cacheKeyFor ex_env ex_now '' ai   music '' None ex_opts = Inr (''ai music'', [], ex_opts, False) \<and>
   cacheKeyFor ex_env (ex_now + 60000) ''ai music'' None ex_opts
     = Inr (''ai music'', [], ex_opts, False) \<and>
   fetchSearch ex_env (ex_up\<lparr>up_proxy := NetworkError\<rparr>) (ex_now + 60000) (ex_now + 60350)
       ''ai music'' None ex_opts
       (snd (fetchSearch ex_env ex_up ex_now (ex_now + 350) '' ai   music '' None ex_opts ex_state))
     = (Inr (ex_response\<lparr>r_cached := Some True\<rparr>),
        snd (fetchSearch ex_env ex_up ex_now (ex_now + 350) '' ai   music '' None ex_opts ex_state))"
proof -
  let ?f = "fetchSearch ex_env ex_up ex_now (ex_now + 350) '' ai   music '' None ex_opts ex_state"
  have r1: "fst ?f = Inr ex_response" by (rule first_example)
  then have first: "?f = (Inr ex_response, snd ?f)" by (metis prod.collapse)
  have k1: "cacheKeyFor ex_env ex_now '' ai   music '' None ex_opts
            = Inr (''ai music'', [], ex_opts, False)" by (rule key_example)
  have "sanitizeQuery ''ai music'' = ''ai music''"
    by (simp add: sanitizeQuery_def trim_def isWhiteSpace_def)
  then have k2: "cacheKeyFor ex_env (ex_now + 60000) ''ai music'' None ex_opts
            = Inr (''ai music'', [], ex_opts, False)"
    using cacheKeyFor_explicit_window[of ex_opts 1000 2000 "''ai music''" "ex_now + 60000" ex_env None]
    by (simp add: ex_opts_def maxTime_def msPerDay_def ex_now_def isWhiteSpace_def ex_env_def
        orEmpty_def)
  from repeated_search_cached[OF first k1 k2, of "ex_up\<lparr>up_proxy := NetworkError\<rparr>" "ex_now + 60350"]
  have "fetchSearch ex_env (ex_up\<lparr>up_proxy := NetworkError\<rparr>) (ex_now + 60000) (ex_now + 60350)
       ''ai music'' None ex_opts (snd ?f) = (Inr (ex_response\<lparr>r_cached := Some True\<rparr>), snd ?f)"
    by auto
  with r1 k1 k2 show ?thesis by blast
qed

section \<open>Dedup scopes: properties\<close>

lemma uniqueUnseen_props:
  "uniqueUnseen seen vs = (r, s) \<Longrightarrow>
     set (map videoId r) \<inter> seen = {} \<and> s = seen \<union> set (map videoId r)"
proof (induction vs arbitrary: seen r s)
  case Nil
  then show ?case by simp
next
  case (Cons v vs)
  show ?case
  proof (cases "videoId v = [] \<or> videoId v \<in> seen")
    case True
    with Cons.prems have "uniqueUnseen seen vs = (r, s)" by (auto split: if_splits)
    from Cons.IH[OF this] show ?thesis .
  next
    case False
    with Cons.prems obtain r' where
      u: "uniqueUnseen (insert (videoId v) seen) vs = (r', s)" and r: "r = v # r'"
      by (auto split: prod.splits)
    from Cons.IH[OF u] False r show ?thesis by auto
  qed
qed

lemma fetchDetails_seen: "fetchDetails up ids st = (r, st1) \<Longrightarrow> seenMap st1 = seenMap st"
  by (auto simp: fetchDetails_def Let_def split: if_splits http.splits)

lemma fetchChannels_seen: "fetchChannels up ids st = (r, st1) \<Longrightarrow> seenMap st1 = seenMap st"
  by (auto simp: fetchChannels_def Let_def split: if_splits http.splits)

lemma dedupe_seen:
  assumes "dedupe q results st = (unique, st')"
  shows "set (map videoId unique) \<inter> seenOf st (toLowerCase q) = {} \<and>
         seenMap st' = (seenMap st)(toLowerCase q \<mapsto> seenOf st (toLowerCase q) \<union> set (map videoId unique))"
proof -
  obtain u s where u: "uniqueUnseen (seenOf st (toLowerCase q)) results = (u, s)"
    by (cases "uniqueUnseen (seenOf st (toLowerCase q)) results")
  with assms have "unique = u" "st' = st\<lparr>seenMap := (seenMap st)(toLowerCase q \<mapsto> s)\<rparr>"
    by (simp_all add: dedupe_def Let_def seenOf_def)
  with uniqueUnseen_props[OF u] show ?thesis by simp
qed

lemma youtubeDirectRest_shape:
  assumes "youtubeDirectRest env up q opts st = (res, st')"
  shows "(\<exists>e. res = Inl e \<and> seenMap st' = seenMap st) \<or>
         (\<exists>r results st2. res = Inr r \<and> seenMap st2 = seenMap st \<and>
            dedupe q results st2 = (r_items r, st'))"
proof (cases "up_search up")
  case NetworkError
  with assms show ?thesis by (auto simp: youtubeDirectRest_def)
next
  case (HttpError x1 x2 x3)
  with assms show ?thesis by (auto simp: youtubeDirectRest_def)
next
  case (HttpOk p)
  obtain items nextPageToken where p: "p = (items, nextPageToken)" by (cases p)
  define ids where "ids = filter (\<lambda>s. s \<noteq> []) (map (\<lambda>i. orEmpty (si_videoId i)) items)"
  define channelIds where "channelIds = distinctInOrder
       (filter (\<lambda>s. s \<noteq> []) (map (\<lambda>i. orEmpty (si_channelId i)) items))"
  obtain d st1 where d: "fetchDetails up ids st = (d, st1)" by (cases "fetchDetails up ids st")
  note s1 = fetchDetails_seen[OF d]
  show ?thesis
  proof (cases d)
    case (Inl e)
    with assms HttpOk p d s1 show ?thesis
      by (auto simp: youtubeDirectRest_def Let_def ids_def)
  next
    case dm: (Inr detailsMap)
    obtain c st2 where c: "fetchChannels up channelIds st1 = (c, st2)"
      by (cases "fetchChannels up channelIds st1")
    note s2 = fetchChannels_seen[OF c]
    show ?thesis
    proof (cases c)
      case (Inl e)
      with assms HttpOk p d dm c s1 s2 show ?thesis
        by (auto simp: youtubeDirectRest_def Let_def ids_def channelIds_def)
    next
      case cm: (Inr channelMap)
      define results where "results = directResults env (o_order opts) detailsMap channelMap items"
      obtain unique st3 where u: "dedupe q results st2 = (unique, st3)"
        by (cases "dedupe q results st2")
      with assms HttpOk p d dm c cm have
        "res = Inr \<lparr>r_q = q, r_items = unique, r_nextPageToken = orNull nextPageToken, r_cached = None\<rparr>"
        "st' = st3"
        by (simp_all add: youtubeDirectRest_def Let_def ids_def channelIds_def results_def)
      with u s1 s2 show ?thesis by auto
    qed
  qed
qed

lemma youtubeDirectRest_seen:
  assumes "youtubeDirectRest env up q opts st = (res, st')"
  shows "resultIds res \<inter> seenOf st (toLowerCase q) = {} \<and>
         seenOf st' (toLowerCase q) = seenOf st (toLowerCase q) \<union> resultIds res \<and>
         (\<forall>k. k \<noteq> toLowerCase q \<longrightarrow> seenOf st' k = seenOf st k)"
  using youtubeDirectRest_shape[OF assms]
proof (elim disjE exE conjE)
  fix e assume "res = Inl e" "seenMap st' = seenMap st"
  then show ?thesis by (simp add: resultIds_def seenOf_def)
next
  fix r results st2
  assume r: "res = Inr r" and s: "seenMap st2 = seenMap st"
    and d: "dedupe q results st2 = (r_items r, st')"
  from s have so: "\<And>k. seenOf st2 k = seenOf st k" by (simp add: seenOf_def)
  from dedupe_seen[OF d] r show ?thesis
    unfolding so s by (simp add: resultIds_def seenOf_def)
qed

lemma directFetch_step:
  assumes "directFetch c st = (res, st')"
  shows "scopeIds k c res \<inter> seenOf st k = {} \<and> seenOf st' k = seenOf st k \<union> scopeIds k c res"
proof (cases "youtubeDirectCheck (dc_env c) (dc_now c) (dc_opts c)")
  case (Some e)
  with assms show ?thesis
    by (auto simp: directFetch_def fetchYouTubeDirect_def scopeIds_def)
next
  case None
  define st0 where "st0 = st\<lparr>requests := requests st @
      [SearchRequest (dc_q c) (orEmpty (dc_pageToken c)) (dc_opts c)]\<rparr>"
  from assms None have
    "youtubeDirectRest (dc_env c) (dc_upstream c) (dc_q c) (dc_opts c) st0 = (res, st')"
    by (simp add: directFetch_def fetchYouTubeDirect_def st0_def)
  from youtubeDirectRest_seen[OF this]
  have a: "resultIds res \<inter> seenOf st (toLowerCase (dc_q c)) = {}"
    and b: "seenOf st' (toLowerCase (dc_q c)) = seenOf st (toLowerCase (dc_q c)) \<union> resultIds res"
    and c: "\<And>k. k \<noteq> toLowerCase (dc_q c) \<Longrightarrow> seenOf st' k = seenOf st k"
    by (simp_all add: seenOf_def st0_def)
  show ?thesis
  proof (cases "k = toLowerCase (dc_q c)")
    case True
    then have "scopeIds k c res = resultIds res"
      by (simp add: scopeIds_def resultIds_def split: sum.splits)
    with a b True show ?thesis by simp
  next
    case False
    then have "scopeIds k c res = {}" by (auto simp: scopeIds_def split: sum.splits)
    with c[OF False] show ?thesis by simp
  qed
qed

lemma runAll_disjoint:
  assumes step: "\<And>c s r s'. step c s = (r, s') \<Longrightarrow> ids c r \<inter> seen s = {} \<and> seen s' = seen s \<union> ids c r"
  shows "runAll step cs s = (rs, s') \<Longrightarrow>
     length rs = length cs \<and> disjointBatches (map2 ids cs rs) \<and>
     (\<forall>A\<in>set (map2 ids cs rs). A \<inter> seen s = {}) \<and> seen s \<subseteq> seen s'"
proof (induction cs arbitrary: s rs)
  case Nil
  then show ?case by (simp add: disjointBatches_def)
next
  case (Cons c cs)
  from Cons.prems obtain r s1 rs1 where
    s: "step c s = (r, s1)" and t: "runAll step cs s1 = (rs1, s')" and rs: "rs = r # rs1"
    by (auto simp: Let_def split: prod.splits)
  from step[OF s] have a: "ids c r \<inter> seen s = {}" "seen s1 = seen s \<union> ids c r" by simp_all
  from Cons.IH[OF t] have ih: "length rs1 = length cs" "disjointBatches (map2 ids cs rs1)"
    "\<forall>A\<in>set (map2 ids cs rs1). A \<inter> seen s1 = {}" "seen s1 \<subseteq> seen s'" by simp_all
  from ih(3) a(2) have "\<forall>A\<in>set (map2 ids cs rs1). ids c r \<inter> A = {} \<and> A \<inter> seen s = {}"
    by auto
  with ih a rs show ?case
    by (auto simp: disjointBatches_def)
qed

lemma map2_ignore_first:
  "length xs = length ys \<Longrightarrow> map2 (\<lambda>c. f) xs ys = map f ys"
  by (induction xs ys rule: list_induct2) simp_all

lemma windowAttempts_seen:
  "windowAttempts fetch tza nowT kw n counter st = (res, st') \<Longrightarrow>
     globalDisplayedIds st' = globalDisplayedIds st \<and> loadingMore st' = loadingMore st \<and>
     (\<forall>items. res = Inr items \<longrightarrow> batchIds items \<inter> globalDisplayedIds st = {})"
proof (induction n arbitrary: counter st)
  case 0
  then show ?case by (auto simp: batchIds_def)
next
  case (Suc n)
  show ?case
  proof (cases "computeNextMonthWindow tza nowT (oldestPublishedDate st) counter")
    case (Inl e)
    with Suc.prems show ?thesis by auto
  next
    case (Inr w)
    obtain a b where w: "w = (a, b)" by (cases w)
    show ?thesis
    proof (cases "fetch (searches st) kw (windowOptions a b)")
      case (Inl e)
      with Suc.prems Inr w show ?thesis by (auto simp: Let_def)
    next
      case resp: (Inr resp)
      define filtered where "filtered = newItems (globalDisplayedIds st) resp"
      define st2 where "st2 = st\<lparr>searches := searches st + 1,
         monthsBackCounter := (monthsBackCounter st)(kw \<mapsto> counter + 1)\<rparr>"
      show ?thesis
      proof (cases "filtered = []")
        case True
        with Suc.prems Inr w resp have "windowAttempts fetch tza nowT kw n (counter + 1) st2 = (res, st')"
          by (simp add: Let_def filtered_def st2_def)
        from Suc.IH[OF this] show ?thesis by (simp add: st2_def)
      next
        case False
        with Suc.prems Inr w resp have "res = Inr filtered" "st' = st2"
          by (simp_all add: Let_def filtered_def st2_def)
        then show ?thesis by (auto simp: st2_def filtered_def batchIds_def newItems_def)
      qed
    qed
  qed
qed

lemma addToPool_ids:
  "globalDisplayedIds (addToPool items st) = globalDisplayedIds st \<union> batchIds items"
  by (cases items) (simp_all add: addToPool_def batchIds_def)

lemma loadMoreForAny_step:
  assumes "loadMoreForAny fetch tza nowT st = (items, st')"
  shows "batchIds items \<inter> globalDisplayedIds st = {} \<and>
         globalDisplayedIds st' = globalDisplayedIds st \<union> batchIds items"
proof (cases "loadingMore st")
  case True
  with assms have "items = []" "st' = st" by (simp_all add: loadMoreForAny_def)
  then show ?thesis by (simp add: batchIds_def)
next
  case False
  define st0 where "st0 = st\<lparr>loadingMore := True,
     keywordIndex := (keywordIndex st mod length AI_KEYWORDS + 1) mod length AI_KEYWORDS\<rparr>"
  define kw where "kw = AI_KEYWORDS ! (keywordIndex st mod length AI_KEYWORDS)"
  obtain res st1 where w: "windowAttempts fetch tza nowT kw MONTH_CAP (startCounter st0 kw) st0 = (res, st1)"
    by (cases "windowAttempts fetch tza nowT kw MONTH_CAP (startCounter st0 kw) st0")
  then have f: "fetchNextMonthWindowGlobal fetch tza nowT (st\<lparr>loadingMore := True\<rparr>) = (res, st1)"
    by (simp add: fetchNextMonthWindowGlobal_def Let_def st0_def kw_def)
  from windowAttempts_seen[OF w]
  have g: "globalDisplayedIds st1 = globalDisplayedIds st"
      "\<And>xs. res = Inr xs \<Longrightarrow> batchIds xs \<inter> globalDisplayedIds st = {}"
    by (simp_all add: st0_def)
  have l: "loadMoreForAny fetch tza nowT st =
        (case res of Inl e \<Rightarrow> ([], (reportError st1)\<lparr>loadingMore := False\<rparr>)
         | Inr xs \<Rightarrow> (xs, (addToPool xs st1)\<lparr>loadingMore := False\<rparr>))"
    using False by (simp add: loadMoreForAny_def f split: sum.splits)
  show ?thesis
  proof (cases res)
    case (Inl e)
    with assms l have "items = []" "st' = (reportError st1)\<lparr>loadingMore := False\<rparr>"
      by auto
    then show ?thesis by (simp add: batchIds_def reportError_def g(1))
  next
    case (Inr xs)
    with assms l have "items = xs" "st' = (addToPool xs st1)\<lparr>loadingMore := False\<rparr>"
      by auto
    with g(2)[OF Inr] show ?thesis by (simp add: addToPool_ids g(1))
  qed
qed

text \<open>
  C2.  Dedup invariant.  Take any sequence of calls of \<^verbatim>\<open>fetchYouTubeDirect\<close>, each
  awaited before the next, with any queries, options, environments and answers of the
  network, from any state; and any sequence of calls of \<^verbatim>\<open>loadMoreForAny\<close>, with any
  behaviour of \<^verbatim>\<open>fetchSearch\<close>, from any state of the application.  For every query text
  \<open>seenKey\<close>, the batches that the direct fetches for that text return are pairwise
  disjoint in their video ids and disjoint from the seen-set of that text at the start,
  and that seen-set only grows.  The batches that the incremental loads return are
  pairwise disjoint in their video ids and disjoint from the global seen-set at the
  start, and the global seen-set only grows.
\<close>

theorem dedup_invariant:
  assumes "runAll directFetch calls st = (results, st')"
    and "runAll (loadMoreForAny fetch tza) nows app = (batches, app')"
  shows "disjointBatches (map2 (scopeIds seenKey) calls results) \<and>
         (\<forall>A\<in>set (map2 (scopeIds seenKey) calls results). A \<inter> seenOf st seenKey = {}) \<and>
         seenOf st seenKey \<subseteq> seenOf st' seenKey \<and>
         disjointBatches (map batchIds batches) \<and>
         (\<forall>A\<in>set (map batchIds batches). A \<inter> globalDisplayedIds app = {}) \<and>
         globalDisplayedIds app \<subseteq> globalDisplayedIds app'"
proof -
  have d: "length results = length calls \<and> disjointBatches (map2 (scopeIds seenKey) calls results) \<and>
     (\<forall>A\<in>set (map2 (scopeIds seenKey) calls results). A \<inter> seenOf st seenKey = {}) \<and>
     seenOf st seenKey \<subseteq> seenOf st' seenKey"
    by (rule runAll_disjoint[where seen = "\<lambda>s. seenOf s seenKey", OF _ assms(1)])
       (rule directFetch_step)
  have g: "length batches = length nows \<and> disjointBatches (map2 (\<lambda>c. batchIds) nows batches) \<and>
     (\<forall>A\<in>set (map2 (\<lambda>c. batchIds) nows batches). A \<inter> globalDisplayedIds app = {}) \<and>
     globalDisplayedIds app \<subseteq> globalDisplayedIds app'"
    by (rule runAll_disjoint[where seen = globalDisplayedIds, OF _ assms(2)])
       (rule loadMoreForAny_step)
  have "map2 (\<lambda>c. batchIds) nows batches = map batchIds batches"
    using g by (simp add: map2_ignore_first)
  with d g show ?thesis by simp
qed

text \<open>
  Two identical direct fetches and two incremental loads against a search that always
  answers with the same video: the second batch is empty each time.
\<close>

theorem dedup_invariant_witness:
  "disjointBatches (map2 (scopeIds ''ai music'') [ex_call, ex_call]
       (fst (runAll directFetch [ex_call, ex_call] ex_state))) \<and>
   map2 (scopeIds ''ai music'') [ex_call, ex_call]
       (fst (runAll directFetch [ex_call, ex_call] ex_state)) = [{''v1'', ''v3''}, {}] \<and>
   seenOf ex_state ''ai music''
     \<subseteq> seenOf (snd (runAll directFetch [ex_call, ex_call] ex_state)) ''ai music'' \<and>
   disjointBatches (map batchIds (fst (runAll (loadMoreForAny ex_fetch 0) [ex_now, ex_now] ex_app))) \<and>
   map batchIds (fst (runAll (loadMoreForAny ex_fetch 0) [ex_now, ex_now] ex_app)) = [{''b''}, {}] \<and>
   globalDisplayedIds ex_app
     \<subseteq> globalDisplayedIds (snd (runAll (loadMoreForAny ex_fetch 0) [ex_now, ex_now] ex_app))"
proof -
  have e1: "map2 (scopeIds ''ai music'') [ex_call, ex_call]
       (fst (runAll directFetch [ex_call, ex_call] ex_state)) = [{''v1'', ''v3''}, {}]"
    by code_simp
  have e2: "map batchIds (fst (runAll (loadMoreForAny ex_fetch 0) [ex_now, ex_now] ex_app)) = [{''b''}, {}]"
    by code_simp
  from dedup_invariant[of "[ex_call, ex_call]" ex_state
      "fst (runAll directFetch [ex_call, ex_call] ex_state)"
      "snd (runAll directFetch [ex_call, ex_call] ex_state)"
      ex_fetch 0 "[ex_now, ex_now]" ex_app
      "fst (runAll (loadMoreForAny ex_fetch 0) [ex_now, ex_now] ex_app)"
      "snd (runAll (loadMoreForAny ex_fetch 0) [ex_now, ex_now] ex_app)" "''ai music''"]
  have "disjointBatches (map2 (scopeIds ''ai music'') [ex_call, ex_call]
       (fst (runAll directFetch [ex_call, ex_call] ex_state))) \<and>
     seenOf ex_state ''ai music''
       \<subseteq> seenOf (snd (runAll directFetch [ex_call, ex_call] ex_state)) ''ai music'' \<and>
     disjointBatches (map batchIds (fst (runAll (loadMoreForAny ex_fetch 0) [ex_now, ex_now] ex_app))) \<and>
     globalDisplayedIds ex_app
       \<subseteq> globalDisplayedIds (snd (runAll (loadMoreForAny ex_fetch 0) [ex_now, ex_now] ex_app))"
    by (simp only: prod.collapse simp_thms)
  with e1 e2 show ?thesis by (simp only: simp_thms)
qed

section \<open>Incremental load: properties\<close>

lemma emptyWindow_Inr: "emptyWindow seen (Inr resp) \<longleftrightarrow> newItems seen resp = []"
  by (auto simp: emptyWindow_def newItems_def list_all_iff filter_empty_conv)

lemma yieldsNew_Inr: "yieldsNew seen (Inr resp) \<longleftrightarrow> newItems seen resp \<noteq> []"
  by (auto simp: yieldsNew_def newItems_def list_ex_iff filter_empty_conv)

lemma emptyWindow_cases:
  assumes "emptyWindow seen r"
  obtains resp where "r = Inr resp" "newItems seen resp = []"
  using assms by (cases r) (simp_all add: emptyWindow_def emptyWindow_Inr[symmetric])

lemma windowResponse_0:
  assumes "windowResponse fetch tza nowT st kw c 0 = Inr resp"
  obtains a b where "computeNextMonthWindow tza nowT (oldestPublishedDate st) c = Inr (a, b)"
    and "fetch (searches st) kw (windowOptions a b) = Inr resp"
  using assms by (auto simp: windowResponse_def split: sum.splits)

lemma windowResponse_shift:
  "oldestPublishedDate st2 = oldestPublishedDate st \<Longrightarrow> searches st2 = searches st + 1 \<Longrightarrow>
   windowResponse fetch tza nowT st2 kw (c + 1) i = windowResponse fetch tza nowT st kw c (Suc i)"
  by (simp add: windowResponse_def add.assoc split: sum.splits)

lemma windowResponse_cong:
  "oldestPublishedDate st2 = oldestPublishedDate st \<Longrightarrow> searches st2 = searches st \<Longrightarrow>
   windowResponse fetch tza nowT st2 kw c i = windowResponse fetch tza nowT st kw c i"
  by (simp add: windowResponse_def split: sum.splits)

lemma windowAttempts_Suc:
  assumes "windowResponse fetch tza nowT st kw c 0 = Inr resp"
  shows "windowAttempts fetch tza nowT kw (Suc n) c st =
     (if newItems (globalDisplayedIds st) resp \<noteq> []
        then (Inr (newItems (globalDisplayedIds st) resp),
              st\<lparr>searches := searches st + 1, monthsBackCounter := (monthsBackCounter st)(kw \<mapsto> c + 1)\<rparr>)
      else windowAttempts fetch tza nowT kw n (c + 1)
             (st\<lparr>searches := searches st + 1, monthsBackCounter := (monthsBackCounter st)(kw \<mapsto> c + 1)\<rparr>))"
proof -
  from assms obtain a b where "computeNextMonthWindow tza nowT (oldestPublishedDate st) c = Inr (a, b)"
    and "fetch (searches st) kw (windowOptions a b) = Inr resp"
    by (rule windowResponse_0)
  then show ?thesis by (simp add: Let_def)
qed

lemma windowAttempts_all_empty:
  assumes "\<forall>i<n. emptyWindow (globalDisplayedIds st) (windowResponse fetch tza nowT st kw c i)"
  shows "\<exists>st'. windowAttempts fetch tza nowT kw n c st = (Inr [], st') \<and>
           searches st' = searches st + n \<and>
           monthsBackCounter st' kw = (if n = 0 then monthsBackCounter st kw else Some (c + int n))"
  using assms
proof (induction n arbitrary: c st)
  case 0
  then show ?case by simp
next
  case (Suc n)
  define st2 where "st2 = st\<lparr>searches := searches st + 1,
     monthsBackCounter := (monthsBackCounter st)(kw \<mapsto> c + 1)\<rparr>"
  from Suc.prems have "emptyWindow (globalDisplayedIds st) (windowResponse fetch tza nowT st kw c 0)"
    by simp
  then obtain resp where r: "windowResponse fetch tza nowT st kw c 0 = Inr resp"
    and e: "newItems (globalDisplayedIds st) resp = []"
    by (rule emptyWindow_cases)
  have step: "windowAttempts fetch tza nowT kw (Suc n) c st = windowAttempts fetch tza nowT kw n (c + 1) st2"
    unfolding windowAttempts_Suc[OF r] st2_def using e by simp
  have "\<forall>i<n. emptyWindow (globalDisplayedIds st2) (windowResponse fetch tza nowT st2 kw (c + 1) i)"
  proof (intro allI impI)
    fix i assume "i < n"
    with Suc.prems have "emptyWindow (globalDisplayedIds st) (windowResponse fetch tza nowT st kw c (Suc i))"
      by simp
    moreover have "windowResponse fetch tza nowT st2 kw (c + 1) i = windowResponse fetch tza nowT st kw c (Suc i)"
      by (rule windowResponse_shift) (simp_all add: st2_def)
    ultimately show "emptyWindow (globalDisplayedIds st2) (windowResponse fetch tza nowT st2 kw (c + 1) i)"
      by (simp add: st2_def)
  qed
  from Suc.IH[OF this] obtain st' where
    w: "windowAttempts fetch tza nowT kw n (c + 1) st2 = (Inr [], st')"
    and s: "searches st' = searches st2 + n"
    and m: "monthsBackCounter st' kw = (if n = 0 then monthsBackCounter st2 kw else Some (c + 1 + int n))"
    by blast
  from s have "searches st' = searches st + Suc n" by (simp add: st2_def)
  moreover from m have "monthsBackCounter st' kw = Some (c + int (Suc n))"
    by (simp add: st2_def)
  ultimately show ?case using step w by simp
qed

lemma windowAttempts_first_new:
  assumes "j < n"
    and "\<forall>i<j. emptyWindow (globalDisplayedIds st) (windowResponse fetch tza nowT st kw c i)"
    and "windowResponse fetch tza nowT st kw c j = Inr resp"
    and "newItems (globalDisplayedIds st) resp \<noteq> []"
  shows "\<exists>st'. windowAttempts fetch tza nowT kw n c st = (Inr (newItems (globalDisplayedIds st) resp), st') \<and>
           searches st' = searches st + j + 1 \<and>
           monthsBackCounter st' kw = Some (c + int j + 1)"
  using assms
proof (induction j arbitrary: n c st)
  case 0
  then obtain m where n: "n = Suc m" by (cases n) simp_all
  from 0 show ?case unfolding n windowAttempts_Suc[OF 0(3)] by simp
next
  case (Suc j)
  then obtain m where n: "n = Suc m" and jm: "j < m" by (cases n) simp_all
  define st2 where "st2 = st\<lparr>searches := searches st + 1,
     monthsBackCounter := (monthsBackCounter st)(kw \<mapsto> c + 1)\<rparr>"
  from Suc.prems(2) have "emptyWindow (globalDisplayedIds st) (windowResponse fetch tza nowT st kw c 0)"
    by simp
  then obtain r0 where r: "windowResponse fetch tza nowT st kw c 0 = Inr r0"
    and e: "newItems (globalDisplayedIds st) r0 = []"
    by (rule emptyWindow_cases)
  have step: "windowAttempts fetch tza nowT kw n c st = windowAttempts fetch tza nowT kw m (c + 1) st2"
    unfolding n windowAttempts_Suc[OF r] st2_def using e by simp
  have sh: "\<And>i. windowResponse fetch tza nowT st2 kw (c + 1) i = windowResponse fetch tza nowT st kw c (Suc i)"
    by (rule windowResponse_shift) (simp_all add: st2_def)
  have g: "globalDisplayedIds st2 = globalDisplayedIds st" by (simp add: st2_def)
  have a: "\<forall>i<j. emptyWindow (globalDisplayedIds st2) (windowResponse fetch tza nowT st2 kw (c + 1) i)"
    using Suc.prems(2) by (simp add: sh g)
  have b: "windowResponse fetch tza nowT st2 kw (c + 1) j = Inr resp"
    using Suc.prems(3) by (simp add: sh)
  have c: "newItems (globalDisplayedIds st2) resp \<noteq> []"
    using Suc.prems(4) by (simp add: g)
  from Suc.IH[OF jm a b c] obtain st' where
    w: "windowAttempts fetch tza nowT kw m (c + 1) st2 = (Inr (newItems (globalDisplayedIds st2) resp), st')"
    and s: "searches st' = searches st2 + j + 1"
    and mc: "monthsBackCounter st' kw = Some (c + 1 + int j + 1)"
    by blast
  from s have "searches st' = searches st + Suc j + 1" by (simp add: st2_def)
  moreover from mc have "monthsBackCounter st' kw = Some (c + int (Suc j) + 1)" by simp
  ultimately show ?case using step w g by simp
qed

lemma addToPool_keeps:
  "monthsBackCounter (addToPool xs st) = monthsBackCounter st"
  "searches (addToPool xs st) = searches st"
  by (simp_all add: addToPool_def)

lemma loadMoreForAny_windows:
  assumes "\<not> loadingMore st"
    and "windowAttempts fetch tza nowT (selectedKeyword st) MONTH_CAP (startCounter st (selectedKeyword st))
           (st\<lparr>loadingMore := True,
               keywordIndex := (keywordIndex st mod length AI_KEYWORDS + 1) mod length AI_KEYWORDS\<rparr>)
         = (Inr xs, st1)"
  shows "fst (loadMoreForAny fetch tza nowT st) = xs"
    and "monthsBackCounter (snd (loadMoreForAny fetch tza nowT st)) = monthsBackCounter st1"
    and "searches (snd (loadMoreForAny fetch tza nowT st)) = searches st1"
proof -
  have "fetchNextMonthWindowGlobal fetch tza nowT (st\<lparr>loadingMore := True\<rparr>) = (Inr xs, st1)"
    using assms(2) by (simp add: fetchNextMonthWindowGlobal_def Let_def selectedKeyword_def startCounter_def)
  with assms(1) have l: "loadMoreForAny fetch tza nowT st = (xs, (addToPool xs st1)\<lparr>loadingMore := False\<rparr>)"
    by (simp add: loadMoreForAny_def)
  show "fst (loadMoreForAny fetch tza nowT st) = xs"
    and "monthsBackCounter (snd (loadMoreForAny fetch tza nowT st)) = monthsBackCounter st1"
    and "searches (snd (loadMoreForAny fetch tza nowT st)) = searches st1"
    unfolding l by (simp_all add: addToPool_keeps)
qed

text \<open>
  C8.  An incremental load that is not a no-op (no other load is running).  If the next
  12 month windows of the selected keyword are all empty (each search returns, and every
  id that it returns is in the global seen-set), the load returns the empty list, the
  months-back counter of the keyword stands 12 above the counter that the load started
  from, and 12 searches were made.  If the window number \<open>j\<close> (counted from 0, below
  12) is the first that yields a video with a new id, the load returns the new items of
  that window, the counter is that window's offset plus 1, and \<open>j + 1\<close> searches were
  made: no window after it was tried.
\<close>

theorem incremental_load_windows:
  assumes "\<not> loadingMore st"
    and "loadMoreForAny fetch tza nowT st = (items, st')"
  shows "(list_all (\<lambda>i. emptyWindow (globalDisplayedIds st) (nextWindow fetch tza nowT st i)) [0..<MONTH_CAP] \<longrightarrow>
            items = [] \<and>
            monthsBackCounter st' (selectedKeyword st) = Some (startCounter st (selectedKeyword st) + 12) \<and>
            searches st' = searches st + 12) \<and>
         (j < MONTH_CAP \<and>
          list_all (\<lambda>i. emptyWindow (globalDisplayedIds st) (nextWindow fetch tza nowT st i)) [0..<j] \<and>
          yieldsNew (globalDisplayedIds st) (nextWindow fetch tza nowT st j) \<longrightarrow>
            items = responseItems (globalDisplayedIds st) (nextWindow fetch tza nowT st j) \<and>
            items \<noteq> [] \<and>
            monthsBackCounter st' (selectedKeyword st) = Some (startCounter st (selectedKeyword st) + int j + 1) \<and>
            searches st' = searches st + j + 1)"
proof -
  define kw where "kw = selectedKeyword st"
  define c where "c = startCounter st kw"
  define st0 where "st0 = st\<lparr>loadingMore := True,
     keywordIndex := (keywordIndex st mod length AI_KEYWORDS + 1) mod length AI_KEYWORDS\<rparr>"
  have wr: "\<And>i. windowResponse fetch tza nowT st0 kw c i = nextWindow fetch tza nowT st i"
    unfolding nextWindow_def kw_def c_def
    by (rule windowResponse_cong) (simp_all add: st0_def)
  have g0: "globalDisplayedIds st0 = globalDisplayedIds st" by (simp add: st0_def)
  have s0: "searches st0 = searches st" by (simp add: st0_def)
  have it: "items = fst (loadMoreForAny fetch tza nowT st)"
    and st': "st' = snd (loadMoreForAny fetch tza nowT st)"
    using assms(2) by simp_all
  have one: "items = [] \<and> monthsBackCounter st' kw = Some (c + 12) \<and> searches st' = searches st + 12"
    if "list_all (\<lambda>i. emptyWindow (globalDisplayedIds st) (nextWindow fetch tza nowT st i)) [0..<MONTH_CAP]"
  proof -
    from that have "\<forall>i<MONTH_CAP. emptyWindow (globalDisplayedIds st0) (windowResponse fetch tza nowT st0 kw c i)"
      by (simp add: list_all_iff wr g0)
    from windowAttempts_all_empty[OF this] obtain st1 where
      w: "windowAttempts fetch tza nowT kw MONTH_CAP c st0 = (Inr [], st1)"
      and s: "searches st1 = searches st0 + MONTH_CAP"
      and m: "monthsBackCounter st1 kw = (if MONTH_CAP = 0 then monthsBackCounter st0 kw else Some (c + int MONTH_CAP))"
      by blast
    from w have w': "windowAttempts fetch tza nowT (selectedKeyword st) MONTH_CAP (startCounter st (selectedKeyword st))
           (st\<lparr>loadingMore := True,
               keywordIndex := (keywordIndex st mod length AI_KEYWORDS + 1) mod length AI_KEYWORDS\<rparr>)
         = (Inr [], st1)"
      by (simp add: kw_def c_def st0_def)
    from loadMoreForAny_windows[OF assms(1) w'] s m show ?thesis
      by (simp add: it st' s0 MONTH_CAP_def)
  qed
  have two: "items = responseItems (globalDisplayedIds st) (nextWindow fetch tza nowT st j) \<and> items \<noteq> [] \<and>
       monthsBackCounter st' kw = Some (c + int j + 1) \<and> searches st' = searches st + j + 1"
    if j: "j < MONTH_CAP"
      and e: "list_all (\<lambda>i. emptyWindow (globalDisplayedIds st) (nextWindow fetch tza nowT st i)) [0..<j]"
      and y: "yieldsNew (globalDisplayedIds st) (nextWindow fetch tza nowT st j)"
  proof -
    from y obtain resp where r: "nextWindow fetch tza nowT st j = Inr resp"
      by (cases "nextWindow fetch tza nowT st j") (simp_all add: yieldsNew_def)
    with y have n: "newItems (globalDisplayedIds st) resp \<noteq> []" by (simp add: yieldsNew_Inr)
    from e have a: "\<forall>i<j. emptyWindow (globalDisplayedIds st0) (windowResponse fetch tza nowT st0 kw c i)"
      by (simp add: list_all_iff wr g0)
    from r have b: "windowResponse fetch tza nowT st0 kw c j = Inr resp" by (simp add: wr)
    from n have d: "newItems (globalDisplayedIds st0) resp \<noteq> []" by (simp add: g0)
    from windowAttempts_first_new[OF j a b d] obtain st1 where
      w: "windowAttempts fetch tza nowT kw MONTH_CAP c st0 = (Inr (newItems (globalDisplayedIds st0) resp), st1)"
      and s: "searches st1 = searches st0 + j + 1"
      and m: "monthsBackCounter st1 kw = Some (c + int j + 1)"
      by blast
    from w have w': "windowAttempts fetch tza nowT (selectedKeyword st) MONTH_CAP (startCounter st (selectedKeyword st))
           (st\<lparr>loadingMore := True,
               keywordIndex := (keywordIndex st mod length AI_KEYWORDS + 1) mod length AI_KEYWORDS\<rparr>)
         = (Inr (newItems (globalDisplayedIds st) resp), st1)"
      by (simp add: kw_def c_def st0_def)
    from loadMoreForAny_windows[OF assms(1) w'] s m n show ?thesis
      by (simp add: it st' s0 r responseItems_def)
  qed
  from one two show ?thesis unfolding kw_def c_def by blast
qed

text \<open>
  A search that always answers with a video already seen, and a search whose first two
  answers are empty and whose third has a new video.
\<close>

theorem incremental_load_windows_witness:
  "fst (loadMoreForAny ex_fetch 0 ex_now ex_app_seen) = [] \<and>
   monthsBackCounter (snd (loadMoreForAny ex_fetch 0 ex_now ex_app_seen)) ''ai music video'' = Some 13 \<and>
   searches (snd (loadMoreForAny ex_fetch 0 ex_now ex_app_seen)) = 12 \<and>
   fst (loadMoreForAny ex_fetch_late 0 ex_now ex_app) = [ex_video_b] \<and>
   monthsBackCounter (snd (loadMoreForAny ex_fetch_late 0 ex_now ex_app)) ''ai music video'' = Some 4 \<and>
   searches (snd (loadMoreForAny ex_fetch_late 0 ex_now ex_app)) = 3"
proof -
  have a1: "\<not> loadingMore ex_app_seen" by code_simp
  have a2: "list_all (\<lambda>i. emptyWindow (globalDisplayedIds ex_app_seen) (nextWindow ex_fetch 0 ex_now ex_app_seen i))
              [0..<MONTH_CAP]"
    by code_simp
  have a3: "selectedKeyword ex_app_seen = ''ai music video''" by code_simp
  have a4: "startCounter ex_app_seen ''ai music video'' = 1" by code_simp
  have a5: "searches ex_app_seen = 0" by code_simp
  have b1: "\<not> loadingMore ex_app" by code_simp
  have b2: "2 < MONTH_CAP \<and>
      list_all (\<lambda>i. emptyWindow (globalDisplayedIds ex_app) (nextWindow ex_fetch_late 0 ex_now ex_app i)) [0..<2] \<and>
      yieldsNew (globalDisplayedIds ex_app) (nextWindow ex_fetch_late 0 ex_now ex_app 2)"
    by code_simp
  have b3: "selectedKeyword ex_app = ''ai music video''" by code_simp
  have b4: "startCounter ex_app ''ai music video'' = 1" by code_simp
  have b5: "searches ex_app = 0" by code_simp
  have b6: "responseItems (globalDisplayedIds ex_app) (nextWindow ex_fetch_late 0 ex_now ex_app 2) = [ex_video_b]"
    by code_simp
  from incremental_load_windows[OF a1 surjective_pairing, of ex_fetch 0 ex_now 0] a2
  have "fst (loadMoreForAny ex_fetch 0 ex_now ex_app_seen) = [] \<and>
     monthsBackCounter (snd (loadMoreForAny ex_fetch 0 ex_now ex_app_seen)) ''ai music video'' = Some 13 \<and>
     searches (snd (loadMoreForAny ex_fetch 0 ex_now ex_app_seen)) = 12"
    by (simp add: a3 a4 a5)
  moreover from incremental_load_windows[OF b1 surjective_pairing, of ex_fetch_late 0 ex_now 2] b2
  have "fst (loadMoreForAny ex_fetch_late 0 ex_now ex_app) = [ex_video_b] \<and>
     monthsBackCounter (snd (loadMoreForAny ex_fetch_late 0 ex_now ex_app)) ''ai music video'' = Some 4 \<and>
     searches (snd (loadMoreForAny ex_fetch_late 0 ex_now ex_app)) = 3"
    by (simp add: b3 b4 b5 b6)
  ultimately show ?thesis by (simp only: simp_thms)
qed

end
